theory Spec2Isabelle
  imports Main "HOL-Library.Word"
begin

unbundle bit_operations_syntax

section \<open>Python values used by subnet.py\<close>

text \<open>
  Python integers are unbounded and are modelled as \<open>int\<close>; the bitwise operators on them
  are the two's-complement ones of HOL (\<open>AND\<close>, \<open>OR\<close>, \<open>XOR\<close>, \<open>NOT\<close>), \<open>x >> n\<close> is
  \<open>drop_bit n x\<close> and \<open>x << n\<close> is \<open>push_bit n x\<close>. Strings are character lists.
  Exceptions are values: a function that can raise returns \<open>error + 'a\<close>.
\<close>

datatype message =
    NotANetwork string
      \<comment> \<open>\<open>'...' does not appear to be an IPv4 or IPv6 network\<close>, raised by \<open>ipaddress.ip_network\<close>\<close>
  | HostBitsSet
      \<comment> \<open>\<open>... has host bits set\<close>, raised by a strict network constructor\<close>
  | AddressNotPermitted
      \<comment> \<open>an AddressValueError (a subclass of ValueError) that nothing catches\<close>
  | InvalidNetmask
      \<comment> \<open>a NetmaskValueError (a subclass of ValueError) that nothing catches\<close>
  | NewPrefixMustBeLonger
  | PrefixLengthDiffInvalid
  | RangeStepZero
  | SubnetsExceedMaximum int int int
      \<comment> \<open>\<open>Requested number of subnets (s) exceeds the maximum possible (m) with CIDR c.\<close>\<close>

datatype error =
    ValueError message
  | TypeError
  | IndexError
  | SystemExit int

type_synonym dict = "(string \<times> string) list"

subsection \<open>Strings and numbers\<close>

text \<open>\<open>s.split(sep)\<close> for a one-character separator: every occurrence splits.\<close>

fun split_str :: "char \<Rightarrow> string \<Rightarrow> string list" where
  "split_str sep [] = [[]]"
| "split_str sep (c # cs) =
     (if c = sep then [] # split_str sep cs
      else (case split_str sep cs of [] \<Rightarrow> [[c]] | p # ps \<Rightarrow> (c # p) # ps))"

text \<open>\<open>s.isascii() and s.isdigit()\<close>: non-empty and made of the digits 0 to 9 only.\<close>

definition decimal_digit :: "char \<Rightarrow> bool" where
  "decimal_digit c = (c \<in> set ''0123456789'')"

definition isdigit :: "string \<Rightarrow> bool" where
  "isdigit s = (s \<noteq> [] \<and> list_all decimal_digit s)"

definition digit_val :: "char \<Rightarrow> int" where
  "digit_val c = int (of_char c) - 48"

text \<open>\<open>int(s, 10)\<close> on a string of decimal digits.\<close>

definition int_of_str :: "string \<Rightarrow> int" where
  "int_of_str s = foldl (\<lambda>acc c. acc * 10 + digit_val c) 0 s"

definition digit_char :: "nat \<Rightarrow> char" where
  "digit_char d = ''0123456789'' ! d"

text \<open>\<open>str(n)\<close> for an integer: decimal digits, a minus sign in front of a negative one.\<close>

fun str_nat :: "nat \<Rightarrow> string" where
  "str_nat n =
     (if n < 10 then [digit_char n] else str_nat (n div 10) @ [digit_char (n mod 10)])"

declare str_nat.simps [simp del]

definition str_int :: "int \<Rightarrow> string" where
  "str_int i = (if i < 0 then CHR ''-'' # str_nat (nat (- i)) else str_nat (nat i))"

text \<open>\<open>n.bit_length()\<close>: the number of bits of the absolute value.\<close>

function bit_length :: "int \<Rightarrow> int" where
  "bit_length n = (if n = 0 then 0 else 1 + bit_length (\<bar>n\<bar> div 2))"
  by pat_completeness auto
termination
  by (relation "measure (\<lambda>n. nat \<bar>n\<bar>)") auto

declare bit_length.simps [simp del]

text \<open>
  \<open>range(start, stop, step)\<close> as a list; a zero step raises ValueError. The length is
  the one CPython computes.
\<close>

definition range_len :: "int \<Rightarrow> int \<Rightarrow> int \<Rightarrow> nat" where
  "range_len start stop step =
     (if 0 < step \<and> start < stop then nat (1 + (stop - 1 - start) div step)
      else if step < 0 \<and> stop < start then nat (1 + (start - 1 - stop) div (- step))
      else 0)"

definition py_range :: "int \<Rightarrow> int \<Rightarrow> int \<Rightarrow> error + int list" where
  "py_range start stop step =
     (if step = 0 then Inl (ValueError RangeStepZero)
      else Inr (map (\<lambda>i. start + int i * step) [0..<range_len start stop step]))"

text \<open>\<open>range(start, stop)\<close>, step one.\<close>

definition py_range1 :: "int \<Rightarrow> int \<Rightarrow> int list" where
  "py_range1 start stop = map (\<lambda>i. start + int i) [0..<nat (stop - start)]"

section \<open>The standard library's ipaddress module, IPv4 part\<close>

text \<open>
  subnet.py computes nothing about addresses itself: it calls \<open>ipaddress.ip_network\<close> and
  reads \<open>netmask\<close>, \<open>network_address\<close>, \<open>broadcast_address\<close>, \<open>hosts()\<close> and \<open>subnets()\<close>
  of the result. These are modelled from CPython 3.11's \<open>Lib/ipaddress.py\<close>, function by
  function and under the library's names. Only the IPv4 classes are modelled:
  \<open>ip_network\<close> tries \<open>IPv6Network\<close> when \<open>IPv4Network\<close> refuses the text, and here that
  second attempt always fails. Every theorem below about a successful run therefore
  assumes an address text that \<open>IPv4Address\<close> accepts, for which the first attempt decides.
\<close>

datatype net_error = AddressValueError | NetmaskValueError | HostBitsError

record network =
  network_address :: int
  prefixlen :: int

definition ALL_ONES :: int where
  "ALL_ONES = 2 ^ 32 - 1"

text \<open>\<open>_BaseV4._parse_octet\<close>; \<open>None\<close> is its ValueError.\<close>

definition parse_octet :: "string \<Rightarrow> int option" where
  "parse_octet octet_str =
     (if octet_str = [] then None
      else if \<not> isdigit octet_str then None
      else if length octet_str > 3 then None
      else if octet_str \<noteq> ''0'' \<and> hd octet_str = CHR ''0'' then None
      else let octet_int = int_of_str octet_str
           in if octet_int > 255 then None else Some octet_int)"

text \<open>\<open>_BaseV4._ip_int_from_string\<close>; \<open>None\<close> is AddressValueError.\<close>

definition ip_int_from_string :: "string \<Rightarrow> int option" where
  "ip_int_from_string ip_str =
     (if ip_str = [] then None
      else let octets = split_str CHR ''.'' ip_str
           in if length octets \<noteq> 4 then None
              else (case map parse_octet octets of
                      [Some a, Some b, Some c, Some d] \<Rightarrow>
                        Some (((a * 256 + b) * 256 + c) * 256 + d)
                    | _ \<Rightarrow> None))"

text \<open>\<open>IPv4Address(address)\<close> from a string, and from an integer.\<close>

definition IPv4Address_str :: "string \<Rightarrow> int option" where
  "IPv4Address_str addr_str =
     (if CHR ''/'' \<in> set addr_str then None else ip_int_from_string addr_str)"

definition IPv4Address_int :: "int \<Rightarrow> int option" where
  "IPv4Address_int address =
     (if address < 0 \<or> address > ALL_ONES then None else Some address)"

text \<open>\<open>_BaseV4._string_from_ip_int\<close>: the four bytes, big-endian, joined by dots.\<close>

definition string_from_ip_int :: "int \<Rightarrow> string" where
  "string_from_ip_int ip_int =
     str_int (drop_bit 24 ip_int AND 255) @ ''.'' @ str_int (drop_bit 16 ip_int AND 255) @ ''.'' @
     str_int (drop_bit 8 ip_int AND 255) @ ''.'' @ str_int (ip_int AND 255)"

text \<open>\<open>_ip_int_from_prefix\<close>: called with a prefix length between 0 and 32 only.\<close>

definition ip_int_from_prefix :: "int \<Rightarrow> int" where
  "ip_int_from_prefix p = ALL_ONES XOR drop_bit (nat p) ALL_ONES"

definition count_righthand_zero_bits :: "int \<Rightarrow> int \<Rightarrow> int" where
  "count_righthand_zero_bits number bits =
     (if number = 0 then bits else min bits (bit_length (NOT number AND (number - 1))))"

text \<open>\<open>_prefix_from_ip_int\<close>; \<open>None\<close> is its ValueError (zeroes and ones mixed).\<close>

definition prefix_from_ip_int :: "int \<Rightarrow> int option" where
  "prefix_from_ip_int ip_int =
     (let trailing_zeroes = count_righthand_zero_bits ip_int 32;
          p = 32 - trailing_zeroes;
          leading_ones = drop_bit (nat trailing_zeroes) ip_int;
          all_ones = push_bit (nat p) 1 - 1
      in if leading_ones \<noteq> all_ones then None else Some p)"

text \<open>\<open>_prefix_from_prefix_string\<close>; \<open>None\<close> is NetmaskValueError.\<close>

definition prefix_from_prefix_string :: "string \<Rightarrow> int option" where
  "prefix_from_prefix_string prefixlen_str =
     (if \<not> isdigit prefixlen_str then None
      else let p = int_of_str prefixlen_str
           in if \<not> (0 \<le> p \<and> p \<le> 32) then None else Some p)"

text \<open>\<open>_prefix_from_ip_string\<close>: a dotted netmask, or else a dotted hostmask.\<close>

definition prefix_from_ip_string :: "string \<Rightarrow> int option" where
  "prefix_from_ip_string ip_str =
     (case ip_int_from_string ip_str of
        None \<Rightarrow> None
      | Some ip_int \<Rightarrow>
          (case prefix_from_ip_int ip_int of
             Some p \<Rightarrow> Some p
           | None \<Rightarrow> prefix_from_ip_int (ip_int XOR ALL_ONES)))"

text \<open>
  \<open>_make_netmask\<close>: the argument is an integer or a string. The result is the prefix
  length; the netmask stored beside it is \<open>ip_int_from_prefix\<close> of it. The library's
  cache of results is a memoisation and is left out.
\<close>

datatype mask_arg = MaskInt int | MaskStr string

fun make_netmask :: "mask_arg \<Rightarrow> int option" where
  "make_netmask (MaskInt p) = (if \<not> (0 \<le> p \<and> p \<le> 32) then None else Some p)"
| "make_netmask (MaskStr s) =
     (case prefix_from_prefix_string s of
        Some p \<Rightarrow> Some p
      | None \<Rightarrow> prefix_from_ip_string s)"

text \<open>
  \<open>IPv4Network(address, strict)\<close>. The argument is a text (split at the slash by
  \<open>_split_addr_prefix\<close>, prefix 32 when there is none) or a pair of integers, as
  \<open>subnets()\<close> passes.
\<close>

datatype net_arg = Text string | IntPair int int

definition finish_network :: "int \<Rightarrow> int \<Rightarrow> bool \<Rightarrow> net_error + network" where
  "finish_network packed p strict =
     (if packed AND ip_int_from_prefix p \<noteq> packed then
        (if strict then Inl HostBitsError
         else Inr \<lparr>network_address = packed AND ip_int_from_prefix p, prefixlen = p\<rparr>)
      else Inr \<lparr>network_address = packed, prefixlen = p\<rparr>)"

fun IPv4Network :: "net_arg \<Rightarrow> bool \<Rightarrow> net_error + network" where
  "IPv4Network (Text address) strict =
     (let parts = split_str CHR ''/'' address
      in if length parts > 2 then Inl AddressValueError
         else (case IPv4Address_str (hd parts) of
                 None \<Rightarrow> Inl AddressValueError
               | Some packed \<Rightarrow>
                   (case make_netmask (if length parts > 1 then MaskStr (parts ! 1) else MaskInt 32) of
                      None \<Rightarrow> Inl NetmaskValueError
                    | Some p \<Rightarrow> finish_network packed p strict)))"
| "IPv4Network (IntPair addr new_mask) strict =
     (case IPv4Address_int addr of
        None \<Rightarrow> Inl AddressValueError
      | Some packed \<Rightarrow>
          (case make_netmask (MaskInt new_mask) of
             None \<Rightarrow> Inl NetmaskValueError
           | Some p \<Rightarrow> finish_network packed p strict))"

text \<open>\<open>ipaddress.ip_network(address, strict)\<close> on a text.\<close>

definition ip_network :: "string \<Rightarrow> bool \<Rightarrow> error + network" where
  "ip_network address strict =
     (case IPv4Network (Text address) strict of
        Inr n \<Rightarrow> Inr n
      | Inl HostBitsError \<Rightarrow> Inl (ValueError HostBitsSet)
      | Inl _ \<Rightarrow> Inl (ValueError (NotANetwork address)))"

text \<open>The attributes of a network.\<close>

definition netmask :: "network \<Rightarrow> int" where
  "netmask n = ip_int_from_prefix (prefixlen n)"

definition hostmask :: "network \<Rightarrow> int" where
  "hostmask n = netmask n XOR ALL_ONES"

definition broadcast_address :: "network \<Rightarrow> int" where
  "broadcast_address n = network_address n OR hostmask n"

text \<open>\<open>str(network)\<close>.\<close>

definition str_network :: "network \<Rightarrow> string" where
  "str_network n = string_from_ip_int (network_address n) @ ''/'' @ str_int (prefixlen n)"

text \<open>
  \<open>hosts()\<close>. The constructor replaces the method on two kinds of network: with prefix
  31 it is \<open>__iter__\<close>, every address from the network address to the broadcast address;
  with prefix 32 it is the one-element list of the address the network was built from,
  which is the network address (the mask of a /32 leaves every bit). Otherwise it is the
  addresses strictly between the network address and the broadcast address.
\<close>

definition hosts :: "network \<Rightarrow> int list" where
  "hosts n =
     (if prefixlen n = 31 then py_range1 (network_address n) (broadcast_address n + 1)
      else if prefixlen n = 32 then [network_address n]
      else py_range1 (network_address n + 1) (broadcast_address n))"

text \<open>
  The method \<open>subnets(new_prefix=new_prefix)\<close> (here \<open>net_subnets\<close>, since subnet.py has a
  parameter called \<open>subnets\<close>), with \<open>prefixlen_diff\<close> at its default 1. Each child is
  built by the strict constructor from the pair (address, new prefix length), so a child
  with host bits set would raise.
\<close>

fun build_children :: "int list \<Rightarrow> int \<Rightarrow> error + network list" where
  "build_children [] new_prefixlen = Inr []"
| "build_children (new_addr # rest) new_prefixlen =
     (case IPv4Network (IntPair new_addr new_prefixlen) True of
        Inl HostBitsError \<Rightarrow> Inl (ValueError HostBitsSet)
      | Inl AddressValueError \<Rightarrow> Inl (ValueError AddressNotPermitted)
      | Inl NetmaskValueError \<Rightarrow> Inl (ValueError InvalidNetmask)
      | Inr current \<Rightarrow>
          (case build_children rest new_prefixlen of
             Inl e \<Rightarrow> Inl e
           | Inr cs \<Rightarrow> Inr (current # cs)))"

definition net_subnets :: "network \<Rightarrow> int \<Rightarrow> error + network list" where
  "net_subnets n new_prefix =
     (if prefixlen n = 32 then Inr [n]
      else if new_prefix < prefixlen n then Inl (ValueError NewPrefixMustBeLonger)
      else let prefixlen_diff = new_prefix - prefixlen n;
               new_prefixlen = prefixlen n + prefixlen_diff
           in if new_prefixlen > 32 then Inl (ValueError PrefixLengthDiffInvalid)
              else (case py_range (network_address n) (broadcast_address n + 1)
                                  (drop_bit (nat prefixlen_diff) (hostmask n + 1)) of
                      Inl e \<Rightarrow> Inl e
                    | Inr addrs \<Rightarrow> build_children addrs new_prefixlen))"

section \<open>subnet.py\<close>

text \<open>
  The command line gives \<open>ip_address\<close> as a string and \<open>--cidr\<close> and \<open>--subnets\<close> as
  integers, each \<open>None\<close> when the option is absent. The f-string
  \<open>f"{ip_address}/{cidr}"\<close> writes \<open>None\<close> as the text None.
\<close>

text \<open>\<open>if subnets:\<close> on an optional integer: neither None nor zero.\<close>

definition truthy :: "int option \<Rightarrow> bool" where
  "truthy v = (case v of None \<Rightarrow> False | Some i \<Rightarrow> i \<noteq> 0)"

definition network_text :: "string \<Rightarrow> int option \<Rightarrow> string" where
  "network_text ip_address cidr =
     ip_address @ ''/'' @ (case cidr of None \<Rightarrow> ''None'' | Some c \<Rightarrow> str_int c)"

text \<open>
  \<open>validate_input\<close> returns nothing. Its outcome is the list of messages it printed (each
  after the words \<open>Input validation error:\<close>) and either a normal return or the exception that
  leaves it; \<open>exit(1)\<close> is \<open>SystemExit 1\<close>. When the network was built the prefix length is
  between 0 and 32, so \<open>2 ** (32 - cidr)\<close> is an integer power.
\<close>

definition validate_input ::
  "string \<Rightarrow> int option \<Rightarrow> int option \<Rightarrow> message list \<times> (error + unit)" where
  "validate_input ip_address cidr subnets =
     (case (if cidr \<noteq> None then ip_network (network_text ip_address cidr) False
            else ip_network ip_address False) of
        Inl (ValueError e) \<Rightarrow> ([e], Inl (SystemExit 1))
      | Inl other \<Rightarrow> ([], Inl other)
      | Inr ip_net \<Rightarrow>
          (let cidr' = (case cidr of None \<Rightarrow> prefixlen ip_net | Some c \<Rightarrow> c)
           in if truthy subnets then
                (let max_subnets = 2 ^ nat (32 - cidr')
                 in if the subnets > max_subnets
                    then ([SubnetsExceedMaximum (the subnets) max_subnets cidr'],
                          Inl (SystemExit 1))
                    else ([], Inr ()))
              else ([], Inr ())))"

text \<open>\<open>calculate_subnet_details\<close>: the dictionary is a list of pairs in the order written.\<close>

definition calculate_subnet_details :: "string \<Rightarrow> int option \<Rightarrow> error + dict" where
  "calculate_subnet_details ip_address cidr =
     (case ip_network (network_text ip_address cidr) False of
        Inl e \<Rightarrow> Inl e
      | Inr ip_net \<Rightarrow>
          (let usable_ips = hosts ip_net
           in Inr [(''Subnet Mask'', string_from_ip_int (netmask ip_net)),
                   (''Network Address'', string_from_ip_int (network_address ip_net)),
                   (''Broadcast Address'', string_from_ip_int (broadcast_address ip_net)),
                   (''Usable IP Range'',
                      if usable_ips \<noteq> []
                      then string_from_ip_int (hd usable_ips) @ '' - '' @
                           string_from_ip_int (last usable_ips)
                      else ''N/A'')]))"

text \<open>
  The loop \<open>while 2 ** (new_cidr - cidr) < subnets: new_cidr += 1\<close>, started at
  \<open>new_cidr = cidr\<close>. The exponent is never negative on the way, so the power is an integer.
  \<open>new_cidr_steps\<close> counts the times the body runs.
\<close>

function new_cidr_loop :: "int \<Rightarrow> int \<Rightarrow> int \<Rightarrow> int" where
  "new_cidr_loop cidr subnets new_cidr =
     (if 2 ^ nat (new_cidr - cidr) < subnets then new_cidr_loop cidr subnets (new_cidr + 1)
      else new_cidr)"
  by pat_completeness auto
termination
  by (relation "measures [\<lambda>(c, s, q). nat (c - q), \<lambda>(c, s, q). nat (s - 2 ^ nat (q - c))]")
     (auto simp: nat_add_distrib)

declare new_cidr_loop.simps [simp del]

function new_cidr_steps :: "int \<Rightarrow> int \<Rightarrow> int \<Rightarrow> nat" where
  "new_cidr_steps cidr subnets new_cidr =
     (if 2 ^ nat (new_cidr - cidr) < subnets then Suc (new_cidr_steps cidr subnets (new_cidr + 1))
      else 0)"
  by pat_completeness auto
termination
  by (relation "measures [\<lambda>(c, s, q). nat (c - q), \<lambda>(c, s, q). nat (s - 2 ^ nat (q - c))]")
     (auto simp: nat_add_distrib)

declare new_cidr_steps.simps [simp del]

text \<open>
  The body of \<open>for subnet in subnet_list\<close>: \<open>list(subnet.hosts())[0]\<close> raises IndexError
  on an empty list.
\<close>

definition subnet_details :: "network \<Rightarrow> error + dict" where
  "subnet_details subnet =
     (case hosts subnet of
        [] \<Rightarrow> Inl IndexError
      | h # hs \<Rightarrow>
          Inr [(''Subnet'', str_network subnet),
               (''Subnet Mask'', string_from_ip_int (netmask subnet)),
               (''Network Address'', string_from_ip_int (network_address subnet)),
               (''Broadcast Address'', string_from_ip_int (broadcast_address subnet)),
               (''Usable IP Range'',
                  string_from_ip_int h @ '' - '' @ string_from_ip_int (last (h # hs)))])"

fun collect_details :: "network list \<Rightarrow> error + dict list" where
  "collect_details [] = Inr []"
| "collect_details (subnet # rest) =
     (case subnet_details subnet of
        Inl e \<Rightarrow> Inl e
      | Inr details \<Rightarrow>
          (case collect_details rest of
             Inl e \<Rightarrow> Inl e
           | Inr results \<Rightarrow> Inr (details # results)))"

text \<open>
  \<open>calculate_multiple_subnets\<close>. With \<open>cidr = None\<close> the loop condition subtracts None from
  None, a TypeError, before anything else happens.
\<close>

definition calculate_multiple_subnets :: "string \<Rightarrow> int option \<Rightarrow> int \<Rightarrow> error + dict list" where
  "calculate_multiple_subnets ip_address cidr subnets =
     (case cidr of
        None \<Rightarrow> Inl TypeError
      | Some c \<Rightarrow>
          (let new_cidr = new_cidr_loop c subnets c
           in case ip_network (network_text ip_address cidr) False of
                Inl e \<Rightarrow> Inl e
              | Inr ip_net \<Rightarrow>
                  (case net_subnets ip_net new_cidr of
                     Inl e \<Rightarrow> Inl e
                   | Inr subnet_list \<Rightarrow> collect_details subnet_list)))"

text \<open>
  \<open>main\<close>, from the parsed arguments on. Its outcome is what \<open>validate_input\<close> printed and
  either the exception that ends the run or the value handed to \<open>display_results\<close>.
\<close>

datatype results = Single dict | Multiple "dict list"

definition main :: "string \<Rightarrow> int option \<Rightarrow> int option \<Rightarrow> message list \<times> (error + results)" where
  "main ip_address cidr subnets =
     (case validate_input ip_address cidr subnets of
        (out, Inl e) \<Rightarrow> (out, Inl e)
      | (out, Inr _) \<Rightarrow>
          if truthy subnets then
            (case calculate_multiple_subnets ip_address cidr (the subnets) of
               Inl e \<Rightarrow> (out, Inl e)
             | Inr rs \<Rightarrow> (out, Inr (Multiple rs)))
          else
            (case calculate_subnet_details ip_address cidr of
               Inl e \<Rightarrow> (out, Inl e)
             | Inr r \<Rightarrow> (out, Inr (Single r))))"

section \<open>The prefix search\<close>

lemma new_cidr_loop_spec:
  "c \<le> q \<Longrightarrow>
   q \<le> new_cidr_loop c n q \<and> \<not> (2 ^ nat (new_cidr_loop c n q - c) < n) \<and>
   (\<forall>j. q \<le> j \<and> j < new_cidr_loop c n q \<longrightarrow> 2 ^ nat (j - c) < n)"
proof (induction c n q rule: new_cidr_loop.induct)
  case (1 cidr subnets new_cidr)
  show ?case
  proof (cases "2 ^ nat (new_cidr - cidr) < subnets")
    case True
    then have eq: "new_cidr_loop cidr subnets new_cidr = new_cidr_loop cidr subnets (new_cidr + 1)"
      by (subst new_cidr_loop.simps) simp
    from "1.prems" have "cidr \<le> new_cidr + 1" by simp
    from "1.IH"[OF True this]
    have ih: "new_cidr + 1 \<le> new_cidr_loop cidr subnets (new_cidr + 1)"
      "\<not> (2 ^ nat (new_cidr_loop cidr subnets (new_cidr + 1) - cidr) < subnets)"
      "\<forall>j. new_cidr + 1 \<le> j \<and> j < new_cidr_loop cidr subnets (new_cidr + 1) \<longrightarrow> 2 ^ nat (j - cidr) < subnets"
      by auto
    have "\<forall>j. new_cidr \<le> j \<and> j < new_cidr_loop cidr subnets (new_cidr + 1) \<longrightarrow> 2 ^ nat (j - cidr) < subnets"
    proof (intro allI impI)
      fix j assume j: "new_cidr \<le> j \<and> j < new_cidr_loop cidr subnets (new_cidr + 1)"
      show "2 ^ nat (j - cidr) < subnets"
      proof (cases "j = new_cidr")
        case True
        with \<open>2 ^ nat (new_cidr - cidr) < subnets\<close> show ?thesis by simp
      next
        case False
        with j ih(3) show ?thesis by simp
      qed
    qed
    with ih(1,2) show ?thesis unfolding eq by simp
  next
    case False
    then have eq: "new_cidr_loop cidr subnets new_cidr = new_cidr"
      by (subst new_cidr_loop.simps) simp
    with False show ?thesis by simp
  qed
qed

lemma new_cidr_loop_steps:
  "new_cidr_loop c n q = q + int (new_cidr_steps c n q)"
proof (induction c n q rule: new_cidr_loop.induct)
  case (1 cidr subnets new_cidr)
  show ?case
  proof (cases "2 ^ nat (new_cidr - cidr) < subnets")
    case True
    with "1.IH" show ?thesis
      by (subst new_cidr_loop.simps, subst new_cidr_steps.simps) simp
  next
    case False
    then show ?thesis
      by (subst new_cidr_loop.simps, subst new_cidr_steps.simps) simp
  qed
qed

lemma new_cidr_loop_least:
  assumes "c \<le> q" "\<not> (2 ^ nat (q - c) < n)"
  shows "new_cidr_loop c n c \<le> q"
proof (rule ccontr)
  assume "\<not> new_cidr_loop c n c \<le> q"
  then have "c \<le> q \<and> q < new_cidr_loop c n c" using assms by simp
  with new_cidr_loop_spec[of c c n] have "2 ^ nat (q - c) < n" by blast
  with assms show False by simp
qed

lemma new_cidr_loop_le_32:
  assumes "p \<le> 32" "n \<le> 2 ^ nat (32 - p)"
  shows "new_cidr_loop p n p \<le> 32"
  using new_cidr_loop_least[of p 32 n] assms by simp

text \<open>
  C9. For a prefix \<open>p\<close> between 0 and 32 and a count \<open>n\<close> with \<open>1 \<le> n \<le> 2 ^ (32 - p)\<close>, the
  search loop stops (the loop function is total) after at most \<open>32 - p\<close>, hence at most 32,
  runs of its body, and the new prefix it ends with is at most 32.
\<close>

theorem prefix_search_terminates_within_bound:
  assumes "0 \<le> p" "p \<le> 32" "1 \<le> n" "n \<le> 2 ^ nat (32 - p)"
  shows "new_cidr_steps p n p \<le> nat (32 - p) \<and> new_cidr_steps p n p \<le> 32 \<and>
         new_cidr_loop p n p = p + int (new_cidr_steps p n p) \<and> new_cidr_loop p n p \<le> 32"
proof -
  have le: "new_cidr_loop p n p \<le> 32" using assms by (intro new_cidr_loop_le_32) auto
  have st: "new_cidr_loop p n p = p + int (new_cidr_steps p n p)" by (rule new_cidr_loop_steps)
  from le st assms show ?thesis by linarith
qed

theorem prefix_search_terminates_within_bound_witness:
  "(0::int) \<le> 24 \<and> (24::int) \<le> 32 \<and> (1::int) \<le> 4 \<and> (4::int) \<le> 2 ^ nat (32 - 24) \<and>
   new_cidr_steps 24 4 24 = 2 \<and> new_cidr_steps 24 4 24 \<le> nat (32 - 24) \<and> new_cidr_loop 24 4 24 = 26"
  using prefix_search_terminates_within_bound[of 24 4] by (simp add: new_cidr_steps.simps)

section \<open>Facts about the string helpers\<close>

lemma split_str_not_Nil [simp]: "split_str sep s \<noteq> []"
  by (induction s) (auto split: list.splits)

lemma split_str_no_sep: "sep \<notin> set s \<Longrightarrow> split_str sep s = [s]"
  by (induction s) auto

lemma split_str_append: "sep \<notin> set s \<Longrightarrow> split_str sep (s @ sep # t) = s # split_str sep t"
  by (induction s) auto

lemma length_split_str: "length (split_str sep s) = Suc (count_list s sep)"
  by (induction s) (auto split: list.splits)

lemma in_split_str: "x \<in> set s \<Longrightarrow> x \<noteq> sep \<Longrightarrow> \<exists>p \<in> set (split_str sep s). x \<in> set p"
  by (induction s) (auto split: list.splits)

lemma digit_val_digit_char: "d < 10 \<Longrightarrow> digit_val (digit_char d) = int d"
proof -
  assume "d < 10"
  then have "d \<in> {0, 1, 2, 3, 4, 5, 6, 7, 8, 9}" by auto
  then show ?thesis by (auto simp: digit_val_def digit_char_def)
qed

lemma digit_char_in: "d < 10 \<Longrightarrow> decimal_digit (digit_char d)"
proof -
  assume "d < 10"
  then have "d \<in> {0, 1, 2, 3, 4, 5, 6, 7, 8, 9}" by auto
  then show ?thesis by (auto simp: digit_char_def decimal_digit_def)
qed

lemma digit_val_bounds: "decimal_digit c \<Longrightarrow> 0 \<le> digit_val c \<and> digit_val c \<le> 9"
  by (auto simp: digit_val_def decimal_digit_def)

lemma int_of_str_snoc: "int_of_str (s @ [c]) = int_of_str s * 10 + digit_val c"
  by (simp add: int_of_str_def)

lemma int_of_str_nonneg: "list_all decimal_digit s \<Longrightarrow> 0 \<le> int_of_str s"
proof (induction s rule: rev_induct)
  case Nil
  then show ?case by (simp add: int_of_str_def)
next
  case (snoc c s)
  then have "0 \<le> int_of_str s" and "0 \<le> digit_val c"
    using digit_val_bounds[of c] by auto
  then show ?case by (simp add: int_of_str_snoc)
qed

lemma str_nat_digits: "list_all decimal_digit (str_nat n)"
proof (induction n rule: str_nat.induct)
  case (1 n)
  show ?case
  proof (cases "n < 10")
    case True
    then show ?thesis using digit_char_in[of n] by (subst str_nat.simps) simp
  next
    case False
    then show ?thesis using "1.IH" digit_char_in[of "n mod 10"]
      by (subst str_nat.simps) simp
  qed
qed

lemma str_nat_not_Nil: "str_nat n \<noteq> []"
  by (subst str_nat.simps) simp

lemma isdigit_str_nat: "isdigit (str_nat n)"
  by (simp add: isdigit_def str_nat_not_Nil str_nat_digits)

lemma int_of_str_str_nat: "int_of_str (str_nat n) = int n"
proof (induction n rule: str_nat.induct)
  case (1 n)
  show ?case
  proof (cases "n < 10")
    case True
    then show ?thesis using digit_val_digit_char[of n]
      by (subst str_nat.simps) (simp add: int_of_str_def)
  next
    case False
    then have "int_of_str (str_nat n) = int_of_str (str_nat (n div 10)) * 10 + digit_val (digit_char (n mod 10))"
      by (subst str_nat.simps) (simp add: int_of_str_snoc)
    also have "\<dots> = int (n div 10) * 10 + int (n mod 10)"
      using "1.IH" False digit_val_digit_char[of "n mod 10"] by simp
    also have "\<dots> = int n" by (simp add: zdiv_int zmod_int)
    finally show ?thesis .
  qed
qed

lemma digits_no_punct:
  "list_all decimal_digit s \<Longrightarrow> CHR ''/'' \<notin> set s \<and> CHR ''.'' \<notin> set s"
  by (induction s) (auto simp: decimal_digit_def)

lemma str_int_nonneg: "0 \<le> p \<Longrightarrow> str_int p = str_nat (nat p)"
  by (simp add: str_int_def)

lemma str_int_no_punct: "CHR ''/'' \<notin> set (str_int p) \<and> CHR ''.'' \<notin> set (str_int p)"
  using digits_no_punct[OF str_nat_digits] by (simp add: str_int_def)

lemma not_isdigit_str_int_neg: "p < 0 \<Longrightarrow> \<not> isdigit (str_int p)"
  by (simp add: str_int_def isdigit_def decimal_digit_def)

lemma parse_octet_Some:
  "parse_octet s = Some v \<Longrightarrow> isdigit s \<and> 0 \<le> v \<and> v \<le> 255"
  using int_of_str_nonneg[of s]
  by (auto simp: parse_octet_def Let_def isdigit_def split: if_splits)

lemma ip_int_from_string_no_dots: "CHR ''.'' \<notin> set s \<Longrightarrow> ip_int_from_string s = None"
  by (simp add: ip_int_from_string_def split_str_no_sep)

lemma ip_int_from_string_Some:
  assumes "ip_int_from_string s = Some a"
  shows "0 \<le> a \<and> a < 2 ^ 32 \<and> CHR ''/'' \<notin> set s"
proof -
  from assms obtain o1 o2 o3 o4 v1 v2 v3 v4 where
    sp: "split_str CHR ''.'' s = [o1, o2, o3, o4]" and
    po: "parse_octet o1 = Some v1" "parse_octet o2 = Some v2"
        "parse_octet o3 = Some v3" "parse_octet o4 = Some v4" and
    a: "a = ((v1 * 256 + v2) * 256 + v3) * 256 + v4"
    by (auto simp: ip_int_from_string_def Let_def split: if_splits list.splits option.splits)
  note b = po[THEN parse_octet_Some]
  have rng: "0 \<le> a \<and> a < 2 ^ 32" using b unfolding a by simp
  have "CHR ''/'' \<notin> set s"
  proof
    assume "CHR ''/'' \<in> set s"
    then obtain p where "p \<in> set (split_str CHR ''.'' s)" "CHR ''/'' \<in> set p"
      using in_split_str[of "CHR ''/''" s "CHR ''.''"] by auto
    then have "isdigit p" "CHR ''/'' \<in> set p" using sp b by auto
    then show False using digits_no_punct[of p] by (simp add: isdigit_def)
  qed
  with rng show ?thesis by simp
qed

section \<open>Facts about masks and network construction\<close>

lemma ALL_ONES_mask: "ALL_ONES = mask 32"
  by (simp add: ALL_ONES_def mask_eq_exp_minus_1)

lemma ip_int_from_prefix_mask:
  "ip_int_from_prefix p = mask 32 XOR mask (32 - nat p)"
  by (simp add: ip_int_from_prefix_def ALL_ONES_mask drop_bit_mask_eq)

lemma bit_imp_lt_32:
  fixes a :: int
  assumes "0 \<le> a" "a < 2 ^ 32" "bit a i"
  shows "i < 32"
proof -
  have "take_bit 32 a = a" using assms by (simp add: take_bit_int_eq_self)
  then have "bit (take_bit 32 a) i" using assms by simp
  then show ?thesis by (simp add: bit_simps)
qed

lemma and_netmask:
  fixes a :: int
  assumes "0 \<le> a" "a < 2 ^ 32"
  shows "a AND ip_int_from_prefix p = push_bit (32 - nat p) (drop_bit (32 - nat p) a)"
proof (rule bit_eqI)
  fix i
  show "bit (a AND ip_int_from_prefix p) i = bit (push_bit (32 - nat p) (drop_bit (32 - nat p) a)) i"
    using bit_imp_lt_32[OF assms, of i]
    by (auto simp: ip_int_from_prefix_mask bit_simps)
qed

lemma and_netmask_arith:
  fixes a :: int
  assumes "0 \<le> a" "a < 2 ^ 32"
  shows "a AND ip_int_from_prefix p = 2 ^ (32 - nat p) * (a div 2 ^ (32 - nat p))"
  by (simp add: and_netmask[OF assms] push_bit_eq_mult drop_bit_eq_div)

lemma hostmask_eq: "hostmask n = mask (32 - nat (prefixlen n))"
  by (rule bit_eqI) (auto simp: hostmask_def netmask_def ip_int_from_prefix_mask ALL_ONES_mask bit_simps)

lemma hostmask_arith: "hostmask n = 2 ^ (32 - nat (prefixlen n)) - 1"
  by (simp add: hostmask_eq mask_eq_exp_minus_1)

lemma or_mask_aligned:
  fixes d :: int
  shows "2 ^ k * d OR mask k = 2 ^ k * d + 2 ^ k - 1"
proof -
  have "push_bit k d + mask k = push_bit k d OR mask k"
    by (rule disjunctive_add) (auto simp: bit_simps)
  then have "d * 2 ^ k + (2 ^ k - 1) = d * 2 ^ k OR mask k"
    by (simp add: push_bit_eq_mult mask_eq_exp_minus_1)
  then show ?thesis by (simp add: mult.commute)
qed

lemma broadcast_aligned:
  "network_address n = 2 ^ (32 - nat (prefixlen n)) * d \<Longrightarrow>
   broadcast_address n = network_address n + 2 ^ (32 - nat (prefixlen n)) - 1"
  by (simp add: broadcast_address_def hostmask_eq or_mask_aligned)

lemma netmask_arith:
  "netmask n = 2 ^ 32 - 2 ^ (32 - nat (prefixlen n))"
proof -
  have z: "NOT (mask 32) AND mask (32 - nat (prefixlen n)) = (0::int)"
    by (rule bit_eqI) (auto simp: bit_simps)
  have "mask 32 XOR mask (32 - nat (prefixlen n)) = (mask 32 :: int) - mask (32 - nat (prefixlen n))"
    using disjunctive_diff_eq_and_not[OF z] disjunctive_and_not_eq_xor[OF z] by simp
  then show ?thesis
    by (simp add: netmask_def ip_int_from_prefix_mask mask_eq_exp_minus_1)
qed

lemma make_netmask_str_int:
  "make_netmask (MaskStr (str_int p)) = (if 0 \<le> p \<and> p \<le> 32 then Some p else None)"
proof -
  have nd: "prefix_from_ip_string (str_int p) = None"
    using str_int_no_punct[of p] by (simp add: prefix_from_ip_string_def ip_int_from_string_no_dots)
  show ?thesis
  proof (cases "p < 0")
    case True
    then show ?thesis
      using not_isdigit_str_int_neg[OF True] nd by (simp add: prefix_from_prefix_string_def)
  next
    case False
    then have "str_int p = str_nat (nat p)" by (simp add: str_int_nonneg)
    then have "isdigit (str_int p)" "int_of_str (str_int p) = p"
      using False by (simp_all add: isdigit_str_nat int_of_str_str_nat)
    then show ?thesis using nd False by (simp add: prefix_from_prefix_string_def)
  qed
qed

lemma split_network_text:
  assumes "CHR ''/'' \<notin> set s"
  shows "split_str CHR ''/'' (network_text s (Some p)) = [s, str_int p]"
  using assms str_int_no_punct[of p]
  by (simp add: network_text_def split_str_append split_str_no_sep)

lemma IPv4Network_text:
  assumes "ip_int_from_string s = Some a"
  shows "IPv4Network (Text (network_text s (Some p))) strict =
           (if 0 \<le> p \<and> p \<le> 32 then finish_network a p strict else Inl NetmaskValueError)"
proof -
  have ns: "CHR ''/'' \<notin> set s" using ip_int_from_string_Some[OF assms] by simp
  show ?thesis
    using assms ns
    by (simp add: split_network_text[OF ns] IPv4Address_str_def make_netmask_str_int
        del: make_netmask.simps)
qed

text \<open>The network built from a valid address text and an integer prefix.\<close>

lemma ip_network_cidr:
  assumes "ip_int_from_string s = Some a" "0 \<le> p" "p \<le> 32"
  shows "ip_network (network_text s (Some p)) False =
           Inr \<lparr>network_address = a AND ip_int_from_prefix p, prefixlen = p\<rparr>"
  using assms by (auto simp: ip_network_def IPv4Network_text finish_network_def
      simp del: IPv4Network.simps)

lemma ip_network_cidr_strict:
  assumes "ip_int_from_string s = Some a" "0 \<le> p" "p \<le> 32"
  shows "ip_network (network_text s (Some p)) True =
           (if a AND ip_int_from_prefix p \<noteq> a then Inl (ValueError HostBitsSet)
            else Inr \<lparr>network_address = a, prefixlen = p\<rparr>)"
  using assms by (auto simp: ip_network_def IPv4Network_text finish_network_def
      simp del: IPv4Network.simps)

lemma ip_network_bad_cidr:
  assumes "ip_int_from_string s = Some a" "p < 0 \<or> 32 < p"
  shows "ip_network (network_text s (Some p)) strict =
           Inl (ValueError (NotANetwork (network_text s (Some p))))"
  using assms by (auto simp: ip_network_def IPv4Network_text simp del: IPv4Network.simps)

lemma make_netmask_None_text: "make_netmask (MaskStr ''None'') = None"
  by (simp add: prefix_from_prefix_string_def isdigit_def decimal_digit_def
      prefix_from_ip_string_def ip_int_from_string_no_dots)

lemma ip_network_None:
  "ip_network (network_text s None) strict = Inl (ValueError (NotANetwork (network_text s None)))"
proof (cases "CHR ''/'' \<in> set s")
  case True
  then have "count_list s CHR ''/'' \<noteq> 0" by (simp add: count_list_0_iff)
  then have "count_list s CHR ''/'' > 0" by simp
  then have "length (split_str CHR ''/'' (network_text s None)) > 2"
    by (simp add: length_split_str network_text_def)
  then show ?thesis by (simp add: ip_network_def Let_def)
next
  case False
  then have "split_str CHR ''/'' (network_text s None) = [s, ''None'']"
    by (simp add: network_text_def split_str_append)
  then show ?thesis
    by (simp add: ip_network_def Let_def make_netmask_None_text split: option.splits
        del: make_netmask.simps)
qed

section \<open>Network and broadcast address\<close>

lemma network_address_range:
  fixes a :: int
  assumes "0 \<le> a" "a < 2 ^ 32"
  shows "0 \<le> a AND ip_int_from_prefix p \<and> a AND ip_int_from_prefix p < 2 ^ 32"
proof -
  have "a AND ip_int_from_prefix p \<le> a"
    using assms by (simp add: AND_upper1)
  moreover have "0 \<le> a AND ip_int_from_prefix p" using assms by simp
  ultimately show ?thesis using assms by simp
qed

lemma broadcast_range:
  assumes "0 \<le> network_address n" "network_address n < 2 ^ 32"
  shows "0 \<le> broadcast_address n \<and> broadcast_address n < 2 ^ 32"
proof -
  have "(2::int) ^ (32 - nat (prefixlen n)) \<le> 2 ^ 32"
    by (rule power_increasing) simp_all
  then have h: "0 \<le> hostmask n" "hostmask n < 2 ^ 32"
    unfolding hostmask_eq by (simp_all add: mask_eq_exp_minus_1)
  have "broadcast_address n < 2 ^ 32"
    unfolding broadcast_address_def using assms h by (intro OR_upper) auto
  moreover have "0 \<le> broadcast_address n"
    unfolding broadcast_address_def using assms h by simp
  ultimately show ?thesis by simp
qed

text \<open>
  C7. An address with host bits set below the prefix length is accepted: \<open>ip_network\<close> is
  called with \<open>strict=False\<close> and keeps \<open>address & netmask\<close>. The network address then has
  no bit in common with the complement of the mask, and the broadcast address is the network
  address with that complement or-ed in. The complement is the 32-bit one: it is stated on
  Python's integers as \<open>ALL_ONES ^ netmask\<close> (the library's hostmask) and on 32-bit words
  as \<open>NOT\<close>; every value lies in \<open>[0, 2 ^ 32)\<close>, so the words lose nothing.
\<close>

theorem host_bits_discarded_by_masking:
  assumes "ip_int_from_string s = Some a" "0 \<le> p" "p \<le> 32"
  shows "(let net = \<lparr>network_address = a AND ip_int_from_prefix p, prefixlen = p\<rparr> in
          ip_network (network_text s (Some p)) False = Inr net \<and>
          netmask net = ip_int_from_prefix p \<and>
          0 \<le> network_address net \<and> network_address net < 2 ^ 32 \<and>
          0 \<le> broadcast_address net \<and> broadcast_address net < 2 ^ 32 \<and>
          network_address net AND (ALL_ONES XOR netmask net) = 0 \<and>
          broadcast_address net = (network_address net OR (ALL_ONES XOR netmask net)) \<and>
          (word_of_int (network_address net) :: 32 word) AND NOT (word_of_int (netmask net)) = 0 \<and>
          (word_of_int (broadcast_address net) :: 32 word) =
             word_of_int (network_address net) OR NOT (word_of_int (netmask net)))"
proof -
  define net where "net = \<lparr>network_address = a AND ip_int_from_prefix p, prefixlen = p\<rparr>"
  have a: "0 \<le> a" "a < 2 ^ 32" using ip_int_from_string_Some[OF assms(1)] by simp_all
  have 1: "ip_network (network_text s (Some p)) False = Inr net"
    unfolding net_def by (rule ip_network_cidr[OF assms])
  have 2: "netmask net = ip_int_from_prefix p" by (simp add: netmask_def net_def)
  have 3: "0 \<le> network_address net \<and> network_address net < 2 ^ 32"
    using network_address_range[OF a, of p] by (simp add: net_def)
  have 4: "0 \<le> broadcast_address net \<and> broadcast_address net < 2 ^ 32"
    using broadcast_range[of net] 3 by simp
  have 5: "network_address net AND (ALL_ONES XOR netmask net) = 0"
    by (rule bit_eqI) (auto simp: net_def netmask_def ip_int_from_prefix_mask ALL_ONES_mask bit_simps)
  have 6: "broadcast_address net = (network_address net OR (ALL_ONES XOR netmask net))"
    by (simp add: broadcast_address_def hostmask_def xor.commute)
  have 7: "(word_of_int (network_address net) :: 32 word) AND NOT (word_of_int (netmask net)) = 0"
    by (rule bit_eqI) (auto simp: net_def netmask_def ip_int_from_prefix_mask bit_simps)
  have 8: "(word_of_int (broadcast_address net) :: 32 word) =
             word_of_int (network_address net) OR NOT (word_of_int (netmask net))"
    by (rule bit_eqI)
       (auto simp: broadcast_address_def hostmask_def netmask_def ALL_ONES_mask bit_simps)
  from 1 2 3 4 5 6 7 8 show ?thesis unfolding Let_def net_def[symmetric] by blast
qed

theorem host_bits_discarded_by_masking_witness:
  "ip_int_from_string ''192.168.1.77'' = Some 3232235853 \<and> (0::int) \<le> 24 \<and> (24::int) \<le> 32 \<and>
   ip_network (network_text ''192.168.1.77'' (Some 24)) False =
     Inr \<lparr>network_address = 3232235776, prefixlen = 24\<rparr> \<and>
   ip_network (network_text ''192.168.1.77'' (Some 24)) True = Inl (ValueError HostBitsSet) \<and>
   broadcast_address \<lparr>network_address = 3232235776, prefixlen = 24\<rparr> = 3232236031"
proof -
  have h: "ip_int_from_string ''192.168.1.77'' = Some 3232235853" by code_simp
  have m: "ip_int_from_prefix 24 = 4294967040" by code_simp
  have s: "ip_network (network_text ''192.168.1.77'' (Some 24)) True = Inl (ValueError HostBitsSet)"
    by code_simp
  have b: "broadcast_address \<lparr>network_address = 3232235776, prefixlen = 24\<rparr> = 3232236031"
    by code_simp
  from host_bits_discarded_by_masking[OF h, of 24] h s b show ?thesis
    by (simp add: Let_def m)
qed

section \<open>Ranges and hosts\<close>

lemma py_range1_length: "length (py_range1 lo hi) = nat (hi - lo)"
  by (simp add: py_range1_def)

lemma py_range1_hd: "lo < hi \<Longrightarrow> hd (py_range1 lo hi) = lo"
  by (simp add: py_range1_def hd_map hd_upt)

lemma py_range1_last: "lo < hi \<Longrightarrow> last (py_range1 lo hi) = hi - 1"
  by (simp add: py_range1_def last_map)

lemma py_range1_Nil: "py_range1 lo hi = [] \<longleftrightarrow> hi \<le> lo"
  by (simp add: py_range1_def)

lemma py_range1_two: "hi = lo + 2 \<Longrightarrow> py_range1 lo hi = [lo, lo + 1]"
  by (simp add: py_range1_def upt_rec)

text \<open>
  A network as the constructor leaves it: prefix length \<open>p\<close> between 0 and 32 and a network
  address that is a multiple of the block size \<open>2 ^ (32 - p)\<close> below \<open>2 ^ 32\<close>.
\<close>

lemma div_block_bounds:
  fixes a :: int
  assumes "0 \<le> a" "a < 2 ^ 32" "k \<le> 32"
  shows "0 \<le> a div 2 ^ k \<and> a div 2 ^ k < 2 ^ (32 - k)"
proof -
  have "(2::int) ^ 32 = 2 ^ k * 2 ^ (32 - k)"
    using assms(3) by (simp add: power_add[symmetric])
  then have "a < 2 ^ k * 2 ^ (32 - k)" using assms by simp
  have "a div 2 ^ k < 2 ^ (32 - k)"
  proof (rule ccontr)
    assume "\<not> a div 2 ^ k < 2 ^ (32 - k)"
    then have "(2::int) ^ k * 2 ^ (32 - k) \<le> 2 ^ k * (a div 2 ^ k)"
      by (intro mult_left_mono) simp_all
    also have "\<dots> = a - a mod 2 ^ k" by (simp add: minus_mod_eq_mult_div)
    also have "\<dots> \<le> a" by simp
    finally show False using \<open>a < 2 ^ k * 2 ^ (32 - k)\<close> by simp
  qed
  moreover have "0 \<le> a div 2 ^ k" using assms by (simp add: pos_imp_zdiv_nonneg_iff)
  ultimately show ?thesis by simp
qed

lemma masked_address_aligned:
  fixes a :: int
  assumes "0 \<le> a" "a < 2 ^ 32" "0 \<le> p" "p \<le> 32"
  shows "\<exists>d. a AND ip_int_from_prefix p = 2 ^ (32 - nat p) * d \<and> 0 \<le> d \<and> d < 2 ^ nat p"
proof -
  have "32 - (32 - nat p) = nat p" using assms by simp
  then show ?thesis
    using and_netmask_arith[OF assms(1,2), of p] div_block_bounds[OF assms(1,2), of "32 - nat p"]
    by auto
qed

lemma aligned_and_netmask:
  fixes e :: int
  assumes "0 \<le> e" "2 ^ j * e < 2 ^ 32" "nat q = 32 - j" "j \<le> 32"
  shows "2 ^ j * e AND ip_int_from_prefix q = 2 ^ j * e"
proof -
  have "0 \<le> (2::int) ^ j * e" using assms by simp
  from and_netmask_arith[OF this assms(2), of q]
  show ?thesis using assms by simp
qed

lemma hosts_small_prefix:
  assumes "network_address n = 2 ^ (32 - nat (prefixlen n)) * d" "0 \<le> prefixlen n" "prefixlen n \<le> 30"
  shows "hosts n = py_range1 (network_address n + 1) (broadcast_address n) \<and>
         hosts n \<noteq> [] \<and>
         hd (hosts n) = network_address n + 1 \<and>
         last (hosts n) = broadcast_address n - 1 \<and>
         int (length (hosts n)) = 2 ^ nat (32 - prefixlen n) - 2"
proof -
  have b: "broadcast_address n = network_address n + 2 ^ (32 - nat (prefixlen n)) - 1"
    by (rule broadcast_aligned[OF assms(1)])
  have "(2::int) ^ 2 \<le> 2 ^ (32 - nat (prefixlen n))"
    using assms by (intro power_increasing) auto
  then have big: "(4::int) \<le> 2 ^ (32 - nat (prefixlen n))" by simp
  have e: "nat (32 - prefixlen n) = 32 - nat (prefixlen n)" using assms by simp
  have h: "hosts n = py_range1 (network_address n + 1) (broadcast_address n)"
    using assms by (simp add: hosts_def)
  have lt: "network_address n + 1 < broadcast_address n" using b big by simp
  show ?thesis
    unfolding h using lt b big
    by (simp add: py_range1_hd py_range1_last py_range1_Nil py_range1_length e)
qed

lemma hosts_31:
  assumes "network_address n = 2 * d" "prefixlen n = 31"
  shows "broadcast_address n = network_address n + 1 \<and>
         hosts n = [network_address n, network_address n + 1]"
proof -
  have b: "broadcast_address n = network_address n + 1"
    using broadcast_aligned[of n d] assms by simp
  have "hosts n = py_range1 (network_address n) (broadcast_address n + 1)"
    using assms by (simp add: hosts_def)
  also have "\<dots> = [network_address n, network_address n + 1]"
    by (rule py_range1_two) (simp add: b)
  finally show ?thesis using b by simp
qed

lemma hosts_32:
  assumes "prefixlen n = 32"
  shows "broadcast_address n = network_address n \<and> hosts n = [network_address n]"
  using broadcast_aligned[of n "network_address n"] assms by (simp add: hosts_def)

lemma hosts_not_Nil:
  assumes "network_address n = 2 ^ (32 - nat (prefixlen n)) * d" "0 \<le> prefixlen n" "prefixlen n \<le> 32"
  shows "hosts n \<noteq> []"
proof -
  consider "prefixlen n \<le> 30" | "prefixlen n = 31" | "prefixlen n = 32"
    using assms by linarith
  then show ?thesis
  proof cases
    case 1
    then show ?thesis using hosts_small_prefix[OF assms(1,2)] by blast
  next
    case 2
    then show ?thesis using hosts_31[of n d] assms(1) by simp
  next
    case 3
    then show ?thesis by (simp add: hosts_def)
  qed
qed

section \<open>Splitting a network\<close>

lemma build_children_ok:
  assumes "0 \<le> q" "q \<le> 32"
    and "\<forall>x \<in> set addrs. 0 \<le> x \<and> x < 2 ^ 32 \<and> x AND ip_int_from_prefix q = x"
  shows "build_children addrs q = Inr (map (\<lambda>x. \<lparr>network_address = x, prefixlen = q\<rparr>) addrs)"
  using assms(3)
proof (induction addrs)
  case Nil
  then show ?case by simp
next
  case (Cons x xs)
  then have x: "0 \<le> x" "x < 2 ^ 32" "x AND ip_int_from_prefix q = x" by simp_all
  have "IPv4Network (IntPair x q) True = Inr \<lparr>network_address = x, prefixlen = q\<rparr>"
    using x assms(1,2) by (simp add: IPv4Address_int_def ALL_ONES_def finish_network_def)
  then show ?case using Cons by (simp del: IPv4Network.simps)
qed

lemma div_block:
  fixes a b r :: int
  assumes "0 \<le> r" "r < b"
  shows "(b * a + r) div b = a"
  using assms by (simp add: add.commute div_pos_pos_trivial)

lemma pow_minus_one_div:
  assumes "j \<le> k"
  shows "((2::int) ^ k - 1) div 2 ^ j = 2 ^ (k - j) - 1"
proof -
  have "(2::int) ^ k = 2 ^ j * 2 ^ (k - j)" using assms by (simp add: power_add[symmetric])
  then have eq: "(2::int) ^ k - 1 = 2 ^ j * (2 ^ (k - j) - 1) + (2 ^ j - 1)"
    by (simp add: algebra_simps)
  show ?thesis unfolding eq by (rule div_block) simp_all
qed

text \<open>
  The children of a network of prefix length \<open>p < 32\<close> for a new prefix length \<open>q\<close>:
  \<open>2 ^ (q - p)\<close> networks, \<open>2 ^ (32 - q)\<close> apart, none refused by the strict constructor.
\<close>

lemma net_subnets_eq:
  assumes al: "network_address n = 2 ^ (32 - nat (prefixlen n)) * d" "0 \<le> d" "d < 2 ^ nat (prefixlen n)"
    and p: "0 \<le> prefixlen n" "prefixlen n \<le> q" "q \<le> 32"
  shows "net_subnets n q =
           Inr (map (\<lambda>i. \<lparr>network_address = network_address n + int i * 2 ^ (32 - nat q), prefixlen = q\<rparr>)
                  [0..<2 ^ nat (q - prefixlen n)])"
proof (cases "prefixlen n = 32")
  case True
  then have "q = 32" using p by simp
  then show ?thesis using True by (simp add: net_subnets_def)
next
  case False
  define k where "k = 32 - nat (prefixlen n)"
  define j where "j = 32 - nat q"
  define N where "N = network_address n"
  have jk: "j \<le> k" "k \<le> 32" "k - j = nat (q - prefixlen n)" "nat (prefixlen n) = 32 - k"
    "nat q = 32 - j" "j \<le> 32"
    using p by (auto simp: k_def j_def)
  have N: "N = 2 ^ k * d" using al by (simp add: N_def k_def)
  have b: "broadcast_address n + 1 = N + 2 ^ k"
    using broadcast_aligned[OF al(1)] by (simp add: N_def k_def)
  have step: "drop_bit (nat (q - prefixlen n)) (hostmask n + 1) = (2::int) ^ j"
  proof -
    have "hostmask n + 1 = 2 ^ k" by (simp add: hostmask_arith k_def)
    moreover have "(2::int) ^ k = 2 ^ j * 2 ^ (k - j)" using jk by (simp add: power_add[symmetric])
    ultimately show ?thesis using jk by (simp add: drop_bit_eq_div)
  qed
  have len: "range_len N (N + 2 ^ k) (2 ^ j) = 2 ^ (k - j)"
  proof -
    have "nat (1 + (2 ^ k - 1) div 2 ^ j) = (2::nat) ^ (k - j)"
      using pow_minus_one_div[OF jk(1)] by (simp add: nat_power_eq)
    then show ?thesis by (simp add: range_len_def)
  qed
  have rng: "py_range N (broadcast_address n + 1) (2 ^ j) =
               Inr (map (\<lambda>i. N + int i * 2 ^ j) [0..<2 ^ (k - j)])"
    by (simp add: py_range_def b len)
  have ok: "\<forall>x \<in> set (map (\<lambda>i. N + int i * 2 ^ j) [0..<2 ^ (k - j)]).
              0 \<le> x \<and> x < 2 ^ 32 \<and> x AND ip_int_from_prefix q = x"
  proof
    fix x assume "x \<in> set (map (\<lambda>i. N + int i * 2 ^ j) [0..<2 ^ (k - j)])"
    then obtain i where i: "i < 2 ^ (k - j)" "x = N + int i * 2 ^ j" by auto
    have kj: "(2::int) ^ k = 2 ^ j * 2 ^ (k - j)" using jk by (simp add: power_add[symmetric])
    define e where "e = 2 ^ (k - j) * d + int i"
    have xe: "x = 2 ^ j * e" by (simp add: i N kj e_def algebra_simps)
    have e0: "0 \<le> e" using al(2) by (simp add: e_def)
    have "int i + 1 \<le> 2 ^ (k - j)" using i(1)
      by (metis of_nat_less_iff of_nat_numeral of_nat_power zless_imp_add1_zle)
    then have "e + 1 \<le> 2 ^ (k - j) * d + 2 ^ (k - j)" by (simp add: e_def)
    also have "\<dots> = 2 ^ (k - j) * (d + 1)" by (simp add: algebra_simps)
    also have "\<dots> \<le> 2 ^ (k - j) * 2 ^ (32 - k)"
      using al(3) jk by (intro mult_left_mono) simp_all
    finally have "2 ^ j * (e + 1) \<le> 2 ^ j * (2 ^ (k - j) * 2 ^ (32 - k))"
      by (intro mult_left_mono) simp_all
    also have "\<dots> = (2::int) ^ (j + ((k - j) + (32 - k)))"
      by (simp add: power_add)
    also have "j + ((k - j) + (32 - k)) = 32" using jk(1,2) by simp
    finally have "2 ^ j * e + 2 ^ j \<le> (2::int) ^ 32" by (simp add: algebra_simps)
    moreover have "(0::int) < 2 ^ j" by simp
    ultimately have lt: "2 ^ j * e < (2::int) ^ 32" by linarith
    have "2 ^ j * e AND ip_int_from_prefix q = 2 ^ j * e"
      by (rule aligned_and_netmask[OF e0 lt jk(5) jk(6)])
    then show "0 \<le> x \<and> x < 2 ^ 32 \<and> x AND ip_int_from_prefix q = x"
      using e0 lt xe by simp
  qed
  have q0: "0 \<le> q" using p by simp
  have eqq: "prefixlen n + (q - prefixlen n) = q" by simp
  have "net_subnets n q =
          (case py_range N (broadcast_address n + 1)
                  (drop_bit (nat (q - prefixlen n)) (hostmask n + 1)) of
             Inl e \<Rightarrow> Inl e
           | Inr addrs \<Rightarrow> build_children addrs q)"
    using False p(2,3) unfolding net_subnets_def Let_def N_def eqq by simp
  also have "\<dots> = build_children (map (\<lambda>i. N + int i * 2 ^ j) [0..<2 ^ (k - j)]) q"
    unfolding step rng by simp
  also have "\<dots> = Inr (map (\<lambda>x. \<lparr>network_address = x, prefixlen = q\<rparr>)
                        (map (\<lambda>i. N + int i * 2 ^ j) [0..<2 ^ (k - j)]))"
    by (rule build_children_ok[OF q0 p(3) ok])
  finally have "net_subnets n q =
      Inr (map (\<lambda>i. \<lparr>network_address = N + int i * 2 ^ j, prefixlen = q\<rparr>) [0..<2 ^ (k - j)])"
    by (simp add: o_def)
  then show ?thesis unfolding jk(3) unfolding N_def j_def .
qed

lemma tiles_union:
  fixes N b :: int
  assumes "0 < b"
  shows "(\<Union>i\<in>{0..<m}. {N + int i * b .. N + int i * b + b - 1}) = {N .. N + int m * b - 1}"
proof (induction m)
  case 0
  then show ?case by simp
next
  case (Suc m)
  have "(\<Union>i\<in>{0..<Suc m}. {N + int i * b .. N + int i * b + b - 1}) =
        (\<Union>i\<in>{0..<m}. {N + int i * b .. N + int i * b + b - 1}) \<union>
        {N + int m * b .. N + int m * b + b - 1}"
    by (simp add: atLeast0_lessThan_Suc Un_commute)
  also have "\<dots> = {N .. N + int m * b - 1} \<union> {N + int m * b .. N + int m * b + b - 1}"
    by (simp only: Suc.IH)
  also have "\<dots> = {N .. N + int (Suc m) * b - 1}"
  proof -
    define c where "c = int m * b"
    have c: "0 \<le> c" using assms by (simp add: c_def)
    have e: "int (Suc m) * b = c + b" by (simp add: c_def algebra_simps)
    have "{N .. N + c - 1} \<union> {N + c .. N + c + b - 1} = {N .. N + (c + b) - 1}"
      using c assms by auto
    then show ?thesis unfolding e c_def .
  qed
  finally show ?case .
qed

lemma child_broadcast:
  assumes al: "network_address n = 2 ^ (32 - nat (prefixlen n)) * d"
    and p: "0 \<le> prefixlen n" "prefixlen n \<le> q" "q \<le> 32"
    and c: "c = \<lparr>network_address = network_address n + int i * 2 ^ (32 - nat q), prefixlen = q\<rparr>"
  shows "broadcast_address c = network_address c + 2 ^ (32 - nat q) - 1"
proof -
  define k where "k = 32 - nat (prefixlen n)"
  define j where "j = 32 - nat q"
  have "j \<le> k" using p by (simp add: k_def j_def)
  then have kj: "(2::int) ^ k = 2 ^ j * 2 ^ (k - j)" by (simp add: power_add[symmetric])
  have "network_address c = 2 ^ j * (2 ^ (k - j) * d + int i)"
    using al kj by (simp add: c k_def[symmetric] j_def[symmetric] algebra_simps)
  then have "network_address c = 2 ^ (32 - nat (prefixlen c)) * (2 ^ (k - j) * d + int i)"
    by (simp add: c j_def)
  from broadcast_aligned[OF this] show ?thesis by (simp add: c)
qed

text \<open>
  C3. For a valid address text, a prefix length \<open>p\<close> and a new prefix length \<open>q\<close> with
  \<open>0 \<le> p \<le> q \<le> 32\<close>, the split of the network \<open>address/p\<close> succeeds and gives exactly
  \<open>2 ^ (q - p)\<close> children, each of prefix length \<open>q\<close>; child \<open>i\<close> starts at the parent's
  network address plus \<open>i * 2 ^ (32 - q)\<close>, so the children are strictly ascending; each
  child's range ends one before the next begins, the first starts and the last ends with
  the parent, and the union of the children's ranges is the parent's range.
\<close>

theorem split_tiles_parent:
  assumes "ip_int_from_string s = Some a" "0 \<le> p" "p \<le> q" "q \<le> 32"
  shows "(let parent = \<lparr>network_address = a AND ip_int_from_prefix p, prefixlen = p\<rparr> in
          ip_network (network_text s (Some p)) False = Inr parent \<and>
          (\<exists>children.
             net_subnets parent q = Inr children \<and>
             length children = 2 ^ nat (q - p) \<and>
             (\<forall>i < length children.
                prefixlen (children ! i) = q \<and>
                network_address (children ! i) = network_address parent + int i * 2 ^ nat (32 - q) \<and>
                broadcast_address (children ! i) = network_address (children ! i) + 2 ^ nat (32 - q) - 1) \<and>
             (\<forall>i j. i < j \<and> j < length children \<longrightarrow>
                broadcast_address (children ! i) < network_address (children ! j)) \<and>
             (\<forall>i. Suc i < length children \<longrightarrow>
                network_address (children ! Suc i) = broadcast_address (children ! i) + 1) \<and>
             network_address (hd children) = network_address parent \<and>
             broadcast_address (last children) = broadcast_address parent \<and>
             (\<Union>c \<in> set children. {network_address c .. broadcast_address c}) =
               {network_address parent .. broadcast_address parent}))"
proof -
  define parent where "parent = \<lparr>network_address = a AND ip_int_from_prefix p, prefixlen = p\<rparr>"
  define b :: int where "b = 2 ^ (32 - nat q)"
  define m :: nat where "m = 2 ^ nat (q - p)"
  define N where "N = network_address parent"
  define children where "children = map (\<lambda>i. \<lparr>network_address = N + int i * b, prefixlen = q\<rparr>) [0..<m]"
  have a: "0 \<le> a" "a < 2 ^ 32" using ip_int_from_string_Some[OF assms(1)] by simp_all
  have p32: "p \<le> 32" using assms by simp
  have pp: "prefixlen parent = p" by (simp add: parent_def)
  from masked_address_aligned[OF a assms(2) p32] obtain d where
    d: "network_address parent = 2 ^ (32 - nat (prefixlen parent)) * d" "0 \<le> d"
       "d < 2 ^ nat (prefixlen parent)"
    by (auto simp: parent_def)
  have e32: "nat (32 - q) = 32 - nat q" using assms by simp
  have b0: "0 < b" by (simp add: b_def)
  have m0: "0 < m" by (simp add: m_def)
  have mb: "int m * b = 2 ^ (32 - nat p)"
  proof -
    have "nat (q - p) + (32 - nat q) = 32 - nat p" using assms by simp
    then have "(2::int) ^ (32 - nat p) = 2 ^ nat (q - p) * 2 ^ (32 - nat q)"
      by (simp add: power_add[symmetric])
    then show ?thesis by (simp add: m_def b_def)
  qed
  have pb: "broadcast_address parent = N + int m * b - 1"
    using broadcast_aligned[OF d(1)] by (simp add: N_def mb pp)
  have 1: "ip_network (network_text s (Some p)) False = Inr parent"
    unfolding parent_def by (rule ip_network_cidr[OF assms(1,2) p32])
  have 2: "net_subnets parent q = Inr children"
    using net_subnets_eq[OF d, of q] assms
    by (simp add: children_def pp N_def b_def m_def)
  have len: "length children = m" by (simp add: children_def)
  have nth: "\<And>i. i < m \<Longrightarrow> children ! i = \<lparr>network_address = N + int i * b, prefixlen = q\<rparr>"
    by (simp add: children_def)
  have bc: "\<And>i. i < m \<Longrightarrow> broadcast_address (children ! i) = N + int i * b + b - 1"
  proof -
    fix i assume "i < m"
    have "broadcast_address (children ! i) = network_address (children ! i) + 2 ^ (32 - nat q) - 1"
      by (rule child_broadcast[OF d(1), of q _ i])
         (use assms in \<open>simp_all add: pp nth[OF \<open>i < m\<close>] N_def b_def\<close>)
    then show "broadcast_address (children ! i) = N + int i * b + b - 1"
      by (simp add: nth[OF \<open>i < m\<close>] b_def)
  qed
  have 3: "\<forall>i < length children.
             prefixlen (children ! i) = q \<and>
             network_address (children ! i) = network_address parent + int i * 2 ^ nat (32 - q) \<and>
             broadcast_address (children ! i) = network_address (children ! i) + 2 ^ nat (32 - q) - 1"
    using bc by (simp add: len nth e32 N_def b_def)
  have 4: "\<forall>i j. i < j \<and> j < length children \<longrightarrow>
             broadcast_address (children ! i) < network_address (children ! j)"
  proof (intro allI impI)
    fix i j assume ij: "i < j \<and> j < length children"
    then have im: "i < m" and jm: "j < m" by (simp_all add: len)
    from ij have "int i + 1 \<le> int j" by simp
    then have "(int i + 1) * b \<le> int j * b" using b0 by (intro mult_right_mono) simp_all
    then show "broadcast_address (children ! i) < network_address (children ! j)"
      by (simp add: bc[OF im] nth[OF jm] algebra_simps)
  qed
  have 5: "\<forall>i. Suc i < length children \<longrightarrow>
             network_address (children ! Suc i) = broadcast_address (children ! i) + 1"
  proof (intro allI impI)
    fix i assume "Suc i < length children"
    then have im: "i < m" and sm: "Suc i < m" by (simp_all add: len)
    show "network_address (children ! Suc i) = broadcast_address (children ! i) + 1"
      by (simp add: bc[OF im] nth[OF sm] algebra_simps)
  qed
  have 6: "network_address (hd children) = network_address parent"
    using m0 by (simp add: children_def hd_map hd_upt N_def)
  have 7: "broadcast_address (last children) = broadcast_address parent"
  proof -
    have ne: "children \<noteq> []" using m0 by (simp add: children_def)
    have "last children = children ! (m - 1)" using ne len by (simp add: last_conv_nth)
    then have "broadcast_address (last children) = N + int (m - 1) * b + b - 1"
      using bc[of "m - 1"] m0 by simp
    also have "\<dots> = N + int m * b - 1" using m0 by (simp add: of_nat_diff algebra_simps)
    finally show ?thesis by (simp add: pb)
  qed
  have 8: "(\<Union>c \<in> set children. {network_address c .. broadcast_address c}) =
             {network_address parent .. broadcast_address parent}"
  proof -
    have bc': "\<And>i. i < m \<Longrightarrow>
        broadcast_address \<lparr>network_address = N + int i * b, prefixlen = q\<rparr> = N + int i * b + b - 1"
      using bc nth by simp
    have "(\<Union>c \<in> set children. {network_address c .. broadcast_address c}) =
          (\<Union>i \<in> {0..<m}. {N + int i * b ..
              broadcast_address \<lparr>network_address = N + int i * b, prefixlen = q\<rparr>})"
      by (simp add: children_def)
    also have "\<dots> = (\<Union>i\<in>{0..<m}. {N + int i * b .. N + int i * b + b - 1})"
      by (rule SUP_cong) (simp_all add: bc')
    also have "\<dots> = {N .. N + int m * b - 1}" by (rule tiles_union[OF b0])
    finally show ?thesis by (simp add: pb N_def)
  qed
  have "\<exists>children.
             net_subnets parent q = Inr children \<and>
             length children = 2 ^ nat (q - p) \<and>
             (\<forall>i < length children.
                prefixlen (children ! i) = q \<and>
                network_address (children ! i) = network_address parent + int i * 2 ^ nat (32 - q) \<and>
                broadcast_address (children ! i) = network_address (children ! i) + 2 ^ nat (32 - q) - 1) \<and>
             (\<forall>i j. i < j \<and> j < length children \<longrightarrow>
                broadcast_address (children ! i) < network_address (children ! j)) \<and>
             (\<forall>i. Suc i < length children \<longrightarrow>
                network_address (children ! Suc i) = broadcast_address (children ! i) + 1) \<and>
             network_address (hd children) = network_address parent \<and>
             broadcast_address (last children) = broadcast_address parent \<and>
             (\<Union>c \<in> set children. {network_address c .. broadcast_address c}) =
               {network_address parent .. broadcast_address parent}"
    using 2 len[unfolded m_def] 3 4 5 6 7 8 by (intro exI[of _ children]) blast
  with 1 show ?thesis unfolding Let_def parent_def[symmetric] by blast
qed

theorem split_tiles_parent_witness:
  "ip_int_from_string ''192.168.1.0'' = Some 3232235776 \<and> (0::int) \<le> 24 \<and> (24::int) \<le> 26 \<and>
   (26::int) \<le> 32 \<and>
   (\<exists>children.
      net_subnets \<lparr>network_address = 3232235776, prefixlen = 24\<rparr> 26 = Inr children \<and>
      length children = 4 \<and>
      (\<Union>c \<in> set children. {network_address c .. broadcast_address c}) =
        {3232235776 .. 3232236031})"
proof -
  have h: "ip_int_from_string ''192.168.1.0'' = Some 3232235776" by code_simp
  have m: "3232235776 AND ip_int_from_prefix 24 = 3232235776" by code_simp
  have b: "broadcast_address \<lparr>network_address = 3232235776, prefixlen = 24\<rparr> = 3232236031"
    by code_simp
  from split_tiles_parent[OF h, of 24 26] have
    "\<exists>children.
      net_subnets \<lparr>network_address = 3232235776, prefixlen = 24\<rparr> 26 = Inr children \<and>
      length children = 4 \<and>
      (\<Union>c \<in> set children. {network_address c .. broadcast_address c}) =
        {3232235776 .. 3232236031}"
    unfolding Let_def m b by auto
  with h show ?thesis by simp
qed

section \<open>The details of a subnet\<close>

lemma str_int_not_Nil: "str_int i \<noteq> []"
  by (simp add: str_int_def str_nat_not_Nil)

lemma length_string_from_ip_int: "7 \<le> length (string_from_ip_int x)"
proof -
  have "\<And>i. 1 \<le> length (str_int i)"
    using str_int_not_Nil by (simp add: Suc_le_eq)
  from this[of "drop_bit 24 x AND 255"] this[of "drop_bit 16 x AND 255"]
       this[of "drop_bit 8 x AND 255"] this[of "x AND 255"]
  show ?thesis by (simp add: string_from_ip_int_def)
qed

lemma range_text_not_NA:
  "string_from_ip_int x @ '' - '' @ string_from_ip_int y \<noteq> ''N/A''"
proof
  assume "string_from_ip_int x @ '' - '' @ string_from_ip_int y = ''N/A''"
  then have "length (string_from_ip_int x @ '' - '' @ string_from_ip_int y) = length ''N/A''"
    by simp
  then show False
    using length_string_from_ip_int[of x] length_string_from_ip_int[of y] by simp
qed

text \<open>The details of one subnet whose host list is not empty.\<close>

lemma subnet_details_ok:
  assumes "hosts c \<noteq> []"
  shows "subnet_details c =
           Inr [(''Subnet'', str_network c),
                (''Subnet Mask'', string_from_ip_int (netmask c)),
                (''Network Address'', string_from_ip_int (network_address c)),
                (''Broadcast Address'', string_from_ip_int (broadcast_address c)),
                (''Usable IP Range'',
                   string_from_ip_int (hd (hosts c)) @ '' - '' @ string_from_ip_int (last (hosts c)))]"
  using assms by (cases "hosts c") (simp_all add: subnet_details_def)

lemma collect_details_ok:
  assumes "\<forall>c \<in> set cs. hosts c \<noteq> []"
  shows "\<exists>rs. collect_details cs = Inr rs \<and> length rs = length cs \<and>
              (\<forall>i < length cs. subnet_details (cs ! i) = Inr (rs ! i))"
  using assms
proof (induction cs)
  case Nil
  then show ?case by simp
next
  case (Cons c cs)
  then obtain rs where rs: "collect_details cs = Inr rs" "length rs = length cs"
    "\<forall>i < length cs. subnet_details (cs ! i) = Inr (rs ! i)" by auto
  from Cons.prems have "hosts c \<noteq> []" by simp
  from subnet_details_ok[OF this] obtain d where d: "subnet_details c = Inr d" by blast
  have "collect_details (c # cs) = Inr (d # rs)" using d rs by simp
  moreover have "\<forall>i < length (c # cs). subnet_details ((c # cs) ! i) = Inr ((d # rs) ! i)"
    using d rs(3) by (auto simp: nth_Cons split: nat.splits)
  ultimately show ?case using rs(2) by auto
qed

text \<open>With one subnet asked for, the search keeps the prefix and the split returns the network itself.\<close>

lemma new_cidr_loop_le_1: "n \<le> 1 \<Longrightarrow> new_cidr_loop p n p = p"
  by (subst new_cidr_loop.simps) simp

lemma net_subnets_same_prefix:
  assumes "network_address n = 2 ^ (32 - nat (prefixlen n)) * d" "0 \<le> d" "d < 2 ^ nat (prefixlen n)"
    "0 \<le> prefixlen n" "prefixlen n \<le> 32"
  shows "net_subnets n (prefixlen n) = Inr [n]"
  using net_subnets_eq[OF assms(1,2,3,4), of "prefixlen n"] assms(5) by simp

lemma calculate_multiple_subnets_no_split:
  assumes "ip_int_from_string s = Some a" "0 \<le> p" "p \<le> 32" "n \<le> 1"
  shows "\<exists>d. subnet_details \<lparr>network_address = a AND ip_int_from_prefix p, prefixlen = p\<rparr> = Inr d \<and>
             calculate_multiple_subnets s (Some p) n = Inr [d]"
proof -
  define parent where "parent = \<lparr>network_address = a AND ip_int_from_prefix p, prefixlen = p\<rparr>"
  have a: "0 \<le> a" "a < 2 ^ 32" using ip_int_from_string_Some[OF assms(1)] by simp_all
  from masked_address_aligned[OF a assms(2,3)] obtain d where
    d: "network_address parent = 2 ^ (32 - nat (prefixlen parent)) * d" "0 \<le> d"
       "d < 2 ^ nat (prefixlen parent)"
    by (auto simp: parent_def)
  have pp: "prefixlen parent = p" by (simp add: parent_def)
  have pr: "0 \<le> prefixlen parent" "prefixlen parent \<le> 32" using assms by (simp_all add: pp)
  have net: "ip_network (network_text s (Some p)) False = Inr parent"
    unfolding parent_def by (rule ip_network_cidr[OF assms(1,2,3)])
  have sub: "net_subnets parent p = Inr [parent]"
    using net_subnets_same_prefix[OF d pr] by (simp add: pp)
  have "hosts parent \<noteq> []" by (rule hosts_not_Nil[OF d(1) pr])
  from subnet_details_ok[OF this] obtain dt where dt: "subnet_details parent = Inr dt" by blast
  have "calculate_multiple_subnets s (Some p) n = Inr [dt]"
    by (simp add: calculate_multiple_subnets_def new_cidr_loop_le_1[OF assms(4)] net sub dt)
  with dt show ?thesis unfolding parent_def by blast
qed

text \<open>
  C2. For a prefix \<open>p\<close> between 0 and 32 and a count \<open>n\<close> with \<open>1 \<le> n \<le> 2 ^ (32 - p)\<close>, the
  search loop of \<open>calculate_multiple_subnets\<close> ends with the smallest \<open>q \<ge> p\<close> such that
  \<open>2 ^ (q - p) \<ge> n\<close>, and no other number is that smallest one. For \<open>n = 1\<close> it ends with
  \<open>p\<close>, and for every valid address text the function returns one entry, the details of the
  network \<open>address/p\<close> itself.
\<close>

theorem prefix_search_finds_least:
  assumes "0 \<le> p" "p \<le> 32" "1 \<le> n" "n \<le> 2 ^ nat (32 - p)"
  shows "p \<le> new_cidr_loop p n p \<and> new_cidr_loop p n p \<le> 32 \<and>
         n \<le> 2 ^ nat (new_cidr_loop p n p - p) \<and>
         (\<forall>q. p \<le> q \<and> n \<le> 2 ^ nat (q - p) \<longrightarrow> new_cidr_loop p n p \<le> q) \<and>
         (\<forall>q'. p \<le> q' \<and> n \<le> 2 ^ nat (q' - p) \<and>
               (\<forall>q. p \<le> q \<and> n \<le> 2 ^ nat (q - p) \<longrightarrow> q' \<le> q) \<longrightarrow> q' = new_cidr_loop p n p) \<and>
         (n = 1 \<longrightarrow>
            new_cidr_loop p n p = p \<and>
            (\<forall>s a. ip_int_from_string s = Some a \<longrightarrow>
               (\<exists>d. subnet_details \<lparr>network_address = a AND ip_int_from_prefix p, prefixlen = p\<rparr> = Inr d \<and>
                    calculate_multiple_subnets s (Some p) n = Inr [d])))"
proof -
  let ?r = "new_cidr_loop p n p"
  from new_cidr_loop_spec[of p p n]
  have 1: "p \<le> ?r" and 2: "n \<le> 2 ^ nat (?r - p)" by simp_all
  have 3: "?r \<le> 32" by (rule new_cidr_loop_le_32[OF assms(2,4)])
  have 4: "\<forall>q. p \<le> q \<and> n \<le> 2 ^ nat (q - p) \<longrightarrow> ?r \<le> q"
    using new_cidr_loop_least[of p _ n] by auto
  have 5: "\<forall>q'. p \<le> q' \<and> n \<le> 2 ^ nat (q' - p) \<and>
               (\<forall>q. p \<le> q \<and> n \<le> 2 ^ nat (q - p) \<longrightarrow> q' \<le> q) \<longrightarrow> q' = ?r"
  proof (intro allI impI)
    fix q' assume q': "p \<le> q' \<and> n \<le> 2 ^ nat (q' - p) \<and>
               (\<forall>q. p \<le> q \<and> n \<le> 2 ^ nat (q - p) \<longrightarrow> q' \<le> q)"
    then have "q' \<le> ?r" using 1 2 by blast
    moreover have "?r \<le> q'" using 4 q' by blast
    ultimately show "q' = ?r" by simp
  qed
  have 6: "n = 1 \<longrightarrow> ?r = p \<and>
            (\<forall>s a. ip_int_from_string s = Some a \<longrightarrow>
               (\<exists>d. subnet_details \<lparr>network_address = a AND ip_int_from_prefix p, prefixlen = p\<rparr> = Inr d \<and>
                    calculate_multiple_subnets s (Some p) n = Inr [d]))"
    using new_cidr_loop_le_1[of n p] calculate_multiple_subnets_no_split[OF _ assms(1,2), of _ _ n]
    by auto
  from 1 2 3 4 5 6 show ?thesis by blast
qed

theorem prefix_search_finds_least_witness:
  "(0::int) \<le> 24 \<and> (24::int) \<le> 32 \<and> (1::int) \<le> 4 \<and> (4::int) \<le> 2 ^ nat (32 - 24) \<and>
   new_cidr_loop 24 4 24 = 26 \<and> (4::int) \<le> 2 ^ nat (new_cidr_loop 24 4 24 - 24) \<and>
   \<not> (4::int) \<le> 2 ^ nat (25 - 24) \<and>
   (0::int) \<le> 30 \<and> (30::int) \<le> 32 \<and> (1::int) \<le> 2 ^ nat (32 - 30) \<and>
   ip_int_from_string ''10.0.0.0'' = Some 167772160 \<and>
   new_cidr_loop 30 1 30 = 30 \<and>
   calculate_multiple_subnets ''10.0.0.0'' (Some 30) 1 =
     Inr [[(''Subnet'', ''10.0.0.0/30''), (''Subnet Mask'', ''255.255.255.252''),
           (''Network Address'', ''10.0.0.0''), (''Broadcast Address'', ''10.0.0.3''),
           (''Usable IP Range'', ''10.0.0.1 - 10.0.0.2'')]]"
proof -
  have h: "ip_int_from_string ''10.0.0.0'' = Some 167772160" by code_simp
  have m: "167772160 AND ip_int_from_prefix 30 = 167772160" by code_simp
  have d: "subnet_details \<lparr>network_address = 167772160, prefixlen = 30\<rparr> =
     Inr [(''Subnet'', ''10.0.0.0/30''), (''Subnet Mask'', ''255.255.255.252''),
          (''Network Address'', ''10.0.0.0''), (''Broadcast Address'', ''10.0.0.3''),
          (''Usable IP Range'', ''10.0.0.1 - 10.0.0.2'')]"
    by code_simp
  have a: "new_cidr_loop 24 4 24 = 26 \<and> (4::int) \<le> 2 ^ nat (new_cidr_loop 24 4 24 - 24)"
    using prefix_search_finds_least[of 24 4] by (simp add: new_cidr_loop.simps)
  have b: "new_cidr_loop 30 1 30 = 30 \<and>
     calculate_multiple_subnets ''10.0.0.0'' (Some 30) 1 =
     Inr [[(''Subnet'', ''10.0.0.0/30''), (''Subnet Mask'', ''255.255.255.252''),
           (''Network Address'', ''10.0.0.0''), (''Broadcast Address'', ''10.0.0.3''),
           (''Usable IP Range'', ''10.0.0.1 - 10.0.0.2'')]]"
  proof -
    from prefix_search_finds_least[of 30 1]
    have l: "new_cidr_loop 30 1 30 = 30"
      and all: "\<forall>s a. ip_int_from_string s = Some a \<longrightarrow>
          (\<exists>d. subnet_details \<lparr>network_address = a AND ip_int_from_prefix 30, prefixlen = 30\<rparr> = Inr d \<and>
               calculate_multiple_subnets s (Some 30) 1 = Inr [d])"
      by simp_all
    from all h obtain dt where
      "subnet_details \<lparr>network_address = 167772160 AND ip_int_from_prefix 30, prefixlen = 30\<rparr> = Inr dt"
      "calculate_multiple_subnets ''10.0.0.0'' (Some 30) 1 = Inr [dt]"
      by blast
    then show ?thesis using l by (simp add: m d)
  qed
  from a b h show ?thesis by simp
qed

section \<open>The usable host range\<close>

text \<open>
  C1, as stated, fails: the usable range of a /31 and of a /32 network is not rendered as
  \<open>N/A\<close>. The library's \<open>hosts()\<close> returns both addresses of a /31 and the single address of
  a /32.
\<close>

theorem usable_range_31_32_counterexample:
  "calculate_subnet_details ''10.0.0.0'' (Some 31) =
     Inr [(''Subnet Mask'', ''255.255.255.254''), (''Network Address'', ''10.0.0.0''),
          (''Broadcast Address'', ''10.0.0.1''), (''Usable IP Range'', ''10.0.0.0 - 10.0.0.1'')] \<and>
   calculate_subnet_details ''10.0.0.7'' (Some 32) =
     Inr [(''Subnet Mask'', ''255.255.255.255''), (''Network Address'', ''10.0.0.7''),
          (''Broadcast Address'', ''10.0.0.7''), (''Usable IP Range'', ''10.0.0.7 - 10.0.0.7'')]"
  by code_simp

text \<open>
  C1, amended. For every valid address text and prefix length \<open>p\<close> between 0 and 32,
  \<open>calculate_subnet_details\<close> succeeds and its \<open>Usable IP Range\<close> field is never \<open>N/A\<close>: it is
  \<open>first - last\<close> where, for \<open>p \<le> 30\<close>, the range runs from the network address plus one to
  the broadcast address minus one and has \<open>2 ^ (32 - p) - 2\<close> addresses; for \<open>p = 31\<close> it is
  the two addresses of the network, from the network address to the broadcast address; for
  \<open>p = 32\<close> it is the single address.
\<close>

theorem usable_range_never_empty:
  assumes "ip_int_from_string s = Some a" "0 \<le> p" "p \<le> 32"
  shows "(let net = \<lparr>network_address = a AND ip_int_from_prefix p, prefixlen = p\<rparr>;
              first = (if p \<le> 30 then network_address net + 1 else network_address net);
              last = (if p \<le> 30 then broadcast_address net - 1 else broadcast_address net)
          in calculate_subnet_details s (Some p) =
               Inr [(''Subnet Mask'', string_from_ip_int (netmask net)),
                    (''Network Address'', string_from_ip_int (network_address net)),
                    (''Broadcast Address'', string_from_ip_int (broadcast_address net)),
                    (''Usable IP Range'',
                       string_from_ip_int first @ '' - '' @ string_from_ip_int last)] \<and>
             string_from_ip_int first @ '' - '' @ string_from_ip_int last \<noteq> ''N/A'' \<and>
             int (length (hosts net)) =
               (if p \<le> 30 then 2 ^ nat (32 - p) - 2 else if p = 31 then 2 else 1))"
proof -
  define net where "net = \<lparr>network_address = a AND ip_int_from_prefix p, prefixlen = p\<rparr>"
  define first where "first = (if p \<le> 30 then network_address net + 1 else network_address net)"
  define last' where "last' = (if p \<le> 30 then broadcast_address net - 1 else broadcast_address net)"
  have a: "0 \<le> a" "a < 2 ^ 32" using ip_int_from_string_Some[OF assms(1)] by simp_all
  have pp: "prefixlen net = p" by (simp add: net_def)
  from masked_address_aligned[OF a assms(2,3)] obtain d where
    d: "network_address net = 2 ^ (32 - nat (prefixlen net)) * d"
    by (auto simp: net_def)
  have pr: "0 \<le> prefixlen net" "prefixlen net \<le> 32" using assms by (simp_all add: pp)
  have nw: "ip_network (network_text s (Some p)) False = Inr net"
    unfolding net_def by (rule ip_network_cidr[OF assms])
  have ne: "hosts net \<noteq> []" by (rule hosts_not_Nil[OF d pr])
  have hl: "hd (hosts net) = first \<and> last (hosts net) = last' \<and>
            int (length (hosts net)) =
              (if p \<le> 30 then 2 ^ nat (32 - p) - 2 else if p = 31 then 2 else 1)"
  proof -
    consider "p \<le> 30" | "p = 31" | "p = 32" using assms by linarith
    then show ?thesis
    proof cases
      case 1
      then have "prefixlen net \<le> 30" by (simp add: pp)
      from hosts_small_prefix[OF d pr(1) this]
      have "hd (hosts net) = network_address net + 1"
        "last (hosts net) = broadcast_address net - 1"
        "int (length (hosts net)) = 2 ^ nat (32 - prefixlen net) - 2"
        by blast+
      with 1 show ?thesis by (simp add: first_def last'_def pp)
    next
      case 2
      then have "network_address net = 2 * d" "prefixlen net = 31" using d by (simp_all add: pp)
      from hosts_31[OF this] 2 show ?thesis by (simp add: first_def last'_def)
    next
      case 3
      then have "prefixlen net = 32" by (simp add: pp)
      from hosts_32[OF this] 3 show ?thesis by (simp add: first_def last'_def)
    qed
  qed
  have 1: "calculate_subnet_details s (Some p) =
               Inr [(''Subnet Mask'', string_from_ip_int (netmask net)),
                    (''Network Address'', string_from_ip_int (network_address net)),
                    (''Broadcast Address'', string_from_ip_int (broadcast_address net)),
                    (''Usable IP Range'',
                       string_from_ip_int first @ '' - '' @ string_from_ip_int last')]"
    using ne hl by (simp add: calculate_subnet_details_def nw Let_def)
  have 2: "string_from_ip_int first @ '' - '' @ string_from_ip_int last' \<noteq> ''N/A''"
    by (rule range_text_not_NA)
  from 1 2 hl show ?thesis
    unfolding Let_def net_def[symmetric] first_def[symmetric] last'_def[symmetric] by blast
qed

theorem usable_range_never_empty_witness:
  "ip_int_from_string ''192.168.1.0'' = Some 3232235776 \<and> (0::int) \<le> 24 \<and> (24::int) \<le> 32 \<and>
   calculate_subnet_details ''192.168.1.0'' (Some 24) =
     Inr [(''Subnet Mask'', ''255.255.255.0''), (''Network Address'', ''192.168.1.0''),
          (''Broadcast Address'', ''192.168.1.255''),
          (''Usable IP Range'', ''192.168.1.1 - 192.168.1.254'')] \<and>
   length (hosts \<lparr>network_address = 3232235776, prefixlen = 24\<rparr>) = 254"
proof -
  have h: "ip_int_from_string ''192.168.1.0'' = Some 3232235776" by code_simp
  have m: "3232235776 AND ip_int_from_prefix 24 = 3232235776" by code_simp
  have b: "broadcast_address \<lparr>network_address = 3232235776, prefixlen = 24\<rparr> = 3232236031"
    by code_simp
  have n: "netmask \<lparr>network_address = 3232235776, prefixlen = 24\<rparr> = 4294967040"
    by code_simp
  have s: "string_from_ip_int 4294967040 = ''255.255.255.0''"
    "string_from_ip_int 3232235776 = ''192.168.1.0''"
    "string_from_ip_int 3232236031 = ''192.168.1.255''"
    "string_from_ip_int 3232235777 = ''192.168.1.1''"
    "string_from_ip_int 3232236030 = ''192.168.1.254''"
    by code_simp+
  from usable_range_never_empty[OF h, of 24] h show ?thesis
    unfolding Let_def m by (simp add: b n s)
qed

section \<open>Validation\<close>

lemma validate_input_cidr:
  assumes "ip_int_from_string s = Some a" "0 \<le> p" "p \<le> 32"
  shows "validate_input s (Some p) subnets =
           (if truthy subnets \<and> the subnets > 2 ^ nat (32 - p)
            then ([SubnetsExceedMaximum (the subnets) (2 ^ nat (32 - p)) p], Inl (SystemExit 1))
            else ([], Inr ()))"
  by (simp add: validate_input_def ip_network_cidr[OF assms] Let_def)

lemma validate_input_bad_cidr:
  assumes "ip_int_from_string s = Some a" "p < 0 \<or> 32 < p"
  shows "validate_input s (Some p) subnets =
           ([NotANetwork (network_text s (Some p))], Inl (SystemExit 1))"
  by (simp add: validate_input_def ip_network_bad_cidr[OF assms])

text \<open>
  C4. For a valid address text, a prefix length \<open>p\<close> between 0 and 32 and any requested
  count \<open>n\<close>, \<open>validate_input\<close> fails with the capacity error (it prints the message about
  the maximum \<open>2 ^ (32 - p)\<close> and exits with status 1) exactly when \<open>n > 2 ^ (32 - p)\<close>;
  otherwise it prints nothing and returns. Prefix 24 with 300 subnets is rejected, the
  maximum being 256.
\<close>

theorem capacity_error_iff:
  assumes "ip_int_from_string s = Some a" "0 \<le> p" "p \<le> 32"
  shows "(validate_input s (Some p) (Some n) =
            ([SubnetsExceedMaximum n (2 ^ nat (32 - p)) p], Inl (SystemExit 1))
          \<longleftrightarrow> n > 2 ^ nat (32 - p)) \<and>
         (snd (validate_input s (Some p) (Some n)) = Inl (SystemExit 1) \<longleftrightarrow> n > 2 ^ nat (32 - p)) \<and>
         (validate_input s (Some p) (Some n) = ([], Inr ()) \<longleftrightarrow> n \<le> 2 ^ nat (32 - p))"
proof -
  have "n > 2 ^ nat (32 - p) \<Longrightarrow> n \<noteq> 0"
  proof
    assume "n > 2 ^ nat (32 - p)" "n = 0"
    moreover have "(0::int) < 2 ^ nat (32 - p)" by simp
    ultimately show False by simp
  qed
  then show ?thesis
    by (auto simp: validate_input_cidr[OF assms] truthy_def)
qed

theorem capacity_error_iff_witness:
  "ip_int_from_string ''192.168.1.0'' = Some 3232235776 \<and> (0::int) \<le> 24 \<and> (24::int) \<le> 32 \<and>
   (300::int) > 2 ^ nat (32 - 24) \<and>
   validate_input ''192.168.1.0'' (Some 24) (Some 300) =
     ([SubnetsExceedMaximum 300 256 24], Inl (SystemExit 1)) \<and>
   validate_input ''192.168.1.0'' (Some 24) (Some 256) = ([], Inr ())"
proof -
  have h: "ip_int_from_string ''192.168.1.0'' = Some 3232235776" by code_simp
  from capacity_error_iff[OF h, of 24 300] capacity_error_iff[OF h, of 24 256] h
  show ?thesis by simp
qed

text \<open>
  C6, as stated, fails: on a bad prefix and on an excessive count \<open>validate_input\<close> returns
  no error value; it prints the message and ends the process with \<open>exit(1)\<close>, and so
  does \<open>main\<close>.
\<close>

theorem validation_aborts_counterexample:
  "validate_input ''10.0.0.0'' (Some 33) None =
     ([NotANetwork ''10.0.0.0/33''], Inl (SystemExit 1)) \<and>
   validate_input ''10.0.0.0'' (Some 30) (Some 5) =
     ([SubnetsExceedMaximum 5 4 30], Inl (SystemExit 1)) \<and>
   main ''10.0.0.0'' (Some 30) (Some 5) = ([SubnetsExceedMaximum 5 4 30], Inl (SystemExit 1))"
  by code_simp

text \<open>
  C6, amended. For every valid address text, a prefix length outside 0 to 32, or a count
  above \<open>2 ^ (32 - p)\<close> for a prefix length \<open>p\<close> inside, makes \<open>validate_input\<close> print one
  message (the library's for the prefix, the capacity message for the count) and end the
  process with exit status 1; \<open>main\<close> ends the same way and nothing is computed.
\<close>

theorem validation_aborts_process:
  assumes "ip_int_from_string s = Some a"
  shows "((p < 0 \<or> 32 < p) \<longrightarrow>
            validate_input s (Some p) subnets =
              ([NotANetwork (network_text s (Some p))], Inl (SystemExit 1)) \<and>
            main s (Some p) subnets =
              ([NotANetwork (network_text s (Some p))], Inl (SystemExit 1))) \<and>
         (0 \<le> p \<and> p \<le> 32 \<and> n > 2 ^ nat (32 - p) \<longrightarrow>
            validate_input s (Some p) (Some n) =
              ([SubnetsExceedMaximum n (2 ^ nat (32 - p)) p], Inl (SystemExit 1)) \<and>
            main s (Some p) (Some n) =
              ([SubnetsExceedMaximum n (2 ^ nat (32 - p)) p], Inl (SystemExit 1)))"
proof -
  have 1: "validate_input s (Some p) subnets =
              ([NotANetwork (network_text s (Some p))], Inl (SystemExit 1))"
    if "p < 0 \<or> 32 < p"
    by (rule validate_input_bad_cidr[OF assms that])
  have 2: "validate_input s (Some p) (Some n) =
              ([SubnetsExceedMaximum n (2 ^ nat (32 - p)) p], Inl (SystemExit 1))"
    if "0 \<le> p \<and> p \<le> 32 \<and> n > 2 ^ nat (32 - p)"
  proof -
    have "(0::int) < 2 ^ nat (32 - p)" by simp
    with that have "n \<noteq> 0" by linarith
    with that show ?thesis by (simp add: validate_input_cidr[OF assms] truthy_def)
  qed
  from 1 2 show ?thesis by (auto simp: main_def)
qed

theorem validation_aborts_process_witness:
  "ip_int_from_string ''192.168.1.0'' = Some 3232235776 \<and> (32::int) < 40 \<and>
   main ''192.168.1.0'' (Some 40) None = ([NotANetwork ''192.168.1.0/40''], Inl (SystemExit 1)) \<and>
   (0::int) \<le> 24 \<and> (24::int) \<le> 32 \<and> (300::int) > 2 ^ nat (32 - 24) \<and>
   main ''192.168.1.0'' (Some 24) (Some 300) =
     ([SubnetsExceedMaximum 300 256 24], Inl (SystemExit 1))"
proof -
  have h: "ip_int_from_string ''192.168.1.0'' = Some 3232235776" by code_simp
  have t: "network_text ''192.168.1.0'' (Some 40) = ''192.168.1.0/40''" by code_simp
  from validation_aborts_process[OF h, of 40 None 0] validation_aborts_process[OF h, of 24 None 300] h
  show ?thesis by (simp add: t)
qed

section \<open>Counts that are zero or negative\<close>

text \<open>
  C5, as stated, fails: a zero count and a negative count are not rejected. Zero is
  falsy, so the run is the single-network one; a negative count passes the capacity check
  and the search loop does not run, so the network itself comes back as the only subnet.
\<close>

theorem nonpositive_count_counterexample:
  "main ''192.168.1.0'' (Some 24) (Some 0) =
     ([], Inr (Single [(''Subnet Mask'', ''255.255.255.0''), (''Network Address'', ''192.168.1.0''),
                       (''Broadcast Address'', ''192.168.1.255''),
                       (''Usable IP Range'', ''192.168.1.1 - 192.168.1.254'')])) \<and>
   main ''192.168.1.0'' (Some 24) (Some (- 3)) =
     ([], Inr (Multiple [[(''Subnet'', ''192.168.1.0/24''), (''Subnet Mask'', ''255.255.255.0''),
                          (''Network Address'', ''192.168.1.0''),
                          (''Broadcast Address'', ''192.168.1.255''),
                          (''Usable IP Range'', ''192.168.1.1 - 192.168.1.254'')]]))"
  by code_simp

text \<open>
  C5, amended. For every valid address text, prefix length between 0 and 32 and count
  \<open>n \<le> 0\<close>, the program reports no error and prints nothing: with \<open>n = 0\<close> it behaves as
  without a count and returns the details of the single network; with \<open>n < 0\<close> it returns
  one subnet, the network itself.
\<close>

theorem nonpositive_count_accepted:
  assumes "ip_int_from_string s = Some a" "0 \<le> p" "p \<le> 32" "n \<le> 0"
  shows "validate_input s (Some p) (Some n) = ([], Inr ()) \<and>
         (n = 0 \<longrightarrow>
            main s (Some p) (Some n) = main s (Some p) None \<and>
            (\<exists>d. calculate_subnet_details s (Some p) = Inr d \<and>
                 main s (Some p) (Some n) = ([], Inr (Single d)))) \<and>
         (n < 0 \<longrightarrow>
            (\<exists>d. subnet_details \<lparr>network_address = a AND ip_int_from_prefix p, prefixlen = p\<rparr> = Inr d \<and>
                 main s (Some p) (Some n) = ([], Inr (Multiple [d]))))"
proof -
  have "(0::int) < 2 ^ nat (32 - p)" by simp
  with assms(4) have le: "\<not> n > 2 ^ nat (32 - p)" by linarith
  have v: "validate_input s (Some p) (Some n) = ([], Inr ())"
    using le by (simp add: validate_input_cidr[OF assms(1,2,3)])
  have v0: "validate_input s (Some p) None = ([], Inr ())"
    by (simp add: validate_input_cidr[OF assms(1,2,3)] truthy_def)
  from usable_range_never_empty[OF assms(1,2,3)]
  obtain d where d: "calculate_subnet_details s (Some p) = Inr d"
    unfolding Let_def by blast
  have z: "n = 0 \<longrightarrow>
            main s (Some p) (Some n) = main s (Some p) None \<and>
            (\<exists>d. calculate_subnet_details s (Some p) = Inr d \<and>
                 main s (Some p) (Some n) = ([], Inr (Single d)))"
    using v v0 d by (auto simp: main_def truthy_def)
  have "n \<le> 1" using assms(4) by simp
  from calculate_multiple_subnets_no_split[OF assms(1,2,3) this]
  obtain dt where dt:
    "subnet_details \<lparr>network_address = a AND ip_int_from_prefix p, prefixlen = p\<rparr> = Inr dt"
    "calculate_multiple_subnets s (Some p) n = Inr [dt]" by blast
  have ng: "n < 0 \<longrightarrow>
            (\<exists>d. subnet_details \<lparr>network_address = a AND ip_int_from_prefix p, prefixlen = p\<rparr> = Inr d \<and>
                 main s (Some p) (Some n) = ([], Inr (Multiple [d])))"
    using v dt by (auto simp: main_def truthy_def)
  from v z ng show ?thesis by blast
qed

theorem nonpositive_count_accepted_witness:
  "ip_int_from_string ''10.0.0.0'' = Some 167772160 \<and> (0::int) \<le> 30 \<and> (30::int) \<le> 32 \<and>
   (- 2::int) \<le> 0 \<and> (0::int) \<le> 0 \<and>
   validate_input ''10.0.0.0'' (Some 30) (Some (- 2)) = ([], Inr ()) \<and>
   main ''10.0.0.0'' (Some 30) (Some (- 2)) =
     ([], Inr (Multiple [[(''Subnet'', ''10.0.0.0/30''), (''Subnet Mask'', ''255.255.255.252''),
                          (''Network Address'', ''10.0.0.0''), (''Broadcast Address'', ''10.0.0.3''),
                          (''Usable IP Range'', ''10.0.0.1 - 10.0.0.2'')]])) \<and>
   main ''10.0.0.0'' (Some 30) (Some 0) = main ''10.0.0.0'' (Some 30) None"
proof -
  have h: "ip_int_from_string ''10.0.0.0'' = Some 167772160" by code_simp
  have m: "167772160 AND ip_int_from_prefix 30 = 167772160" by code_simp
  have d: "subnet_details \<lparr>network_address = 167772160, prefixlen = 30\<rparr> =
     Inr [(''Subnet'', ''10.0.0.0/30''), (''Subnet Mask'', ''255.255.255.252''),
          (''Network Address'', ''10.0.0.0''), (''Broadcast Address'', ''10.0.0.3''),
          (''Usable IP Range'', ''10.0.0.1 - 10.0.0.2'')]"
    by code_simp
  from nonpositive_count_accepted[OF h, of 30 "- 2"]
  have a: "validate_input ''10.0.0.0'' (Some 30) (Some (- 2)) = ([], Inr ())"
    and "\<exists>dt. subnet_details \<lparr>network_address = 167772160 AND ip_int_from_prefix 30, prefixlen = 30\<rparr> = Inr dt \<and>
           main ''10.0.0.0'' (Some 30) (Some (- 2)) = ([], Inr (Multiple [dt]))"
    by simp_all
  then have b: "main ''10.0.0.0'' (Some 30) (Some (- 2)) =
     ([], Inr (Multiple [[(''Subnet'', ''10.0.0.0/30''), (''Subnet Mask'', ''255.255.255.252''),
                          (''Network Address'', ''10.0.0.0''), (''Broadcast Address'', ''10.0.0.3''),
                          (''Usable IP Range'', ''10.0.0.1 - 10.0.0.2'')]]))"
    by (auto simp: m d)
  from nonpositive_count_accepted[OF h, of 30 0]
  have c: "main ''10.0.0.0'' (Some 30) (Some 0) = main ''10.0.0.0'' (Some 30) None"
    by simp
  from a b c h show ?thesis by simp
qed

section \<open>Runs without a prefix argument\<close>

lemma validate_input_no_cidr:
  assumes "ip_network s False = Inr net"
  shows "validate_input s None subnets =
           (if truthy subnets \<and> the subnets > 2 ^ nat (32 - prefixlen net)
            then ([SubnetsExceedMaximum (the subnets) (2 ^ nat (32 - prefixlen net)) (prefixlen net)],
                  Inl (SystemExit 1))
            else ([], Inr ()))"
  by (simp add: validate_input_def assms Let_def)

text \<open>
  C10, as stated, fails in two places. Without \<open>--cidr\<close>, \<open>validate_input\<close> does not always
  succeed: the prefix it derives locally (32 for a bare address) bounds the count, so
  \<open>10.0.0.1\<close> with two subnets is refused with exit status 1. And when a count is given
  and validation passes, \<open>calculate_multiple_subnets\<close> raises TypeError in its loop
  condition (\<open>None - None\<close>), not ValueError, before any network text is built.
\<close>

theorem missing_prefix_counterexample:
  "validate_input ''10.0.0.1'' None (Some 2) =
     ([SubnetsExceedMaximum 2 1 32], Inl (SystemExit 1)) \<and>
   validate_input ''192.168.1.0/24'' None (Some 2) = ([], Inr ()) \<and>
   main ''192.168.1.0/24'' None (Some 2) = ([], Inl TypeError)"
  by code_simp

text \<open>
  C10, amended. For every address text that is a valid network on its own (with or without
  an embedded prefix) and no \<open>--cidr\<close>, the program never produces a result. If a non-zero
  count exceeds \<open>2 ^ (32 - p)\<close>, \<open>p\<close> the prefix length the text itself gives,
  \<open>validate_input\<close> prints the capacity message and exits with status 1; otherwise it
  succeeds without handing the derived prefix on, and then \<open>calculate_multiple_subnets\<close>
  (non-zero count) raises an unhandled TypeError, or \<open>calculate_subnet_details\<close> (no count,
  or zero) builds the text \<open>address/None\<close> and raises an unhandled ValueError.
\<close>

theorem missing_prefix_never_succeeds:
  assumes "ip_network s False = Inr net"
  shows "main s None subnets =
           (if truthy subnets \<and> the subnets > 2 ^ nat (32 - prefixlen net)
            then ([SubnetsExceedMaximum (the subnets) (2 ^ nat (32 - prefixlen net)) (prefixlen net)],
                  Inl (SystemExit 1))
            else if truthy subnets then ([], Inl TypeError)
            else ([], Inl (ValueError (NotANetwork (network_text s None))))) \<and>
         (\<not> (truthy subnets \<and> the subnets > 2 ^ nat (32 - prefixlen net)) \<longrightarrow>
            validate_input s None subnets = ([], Inr ())) \<and>
         calculate_multiple_subnets s None k = Inl TypeError \<and>
         calculate_subnet_details s None = Inl (ValueError (NotANetwork (network_text s None))) \<and>
         (\<forall>r. snd (main s None subnets) \<noteq> Inr r)"
proof -
  have v: "validate_input s None subnets =
           (if truthy subnets \<and> the subnets > 2 ^ nat (32 - prefixlen net)
            then ([SubnetsExceedMaximum (the subnets) (2 ^ nat (32 - prefixlen net)) (prefixlen net)],
                  Inl (SystemExit 1))
            else ([], Inr ()))"
    by (rule validate_input_no_cidr[OF assms])
  have m: "\<And>k. calculate_multiple_subnets s None k = Inl TypeError"
    by (simp add: calculate_multiple_subnets_def)
  have d: "calculate_subnet_details s None = Inl (ValueError (NotANetwork (network_text s None)))"
    by (simp add: calculate_subnet_details_def ip_network_None)
  have 1: "main s None subnets =
           (if truthy subnets \<and> the subnets > 2 ^ nat (32 - prefixlen net)
            then ([SubnetsExceedMaximum (the subnets) (2 ^ nat (32 - prefixlen net)) (prefixlen net)],
                  Inl (SystemExit 1))
            else if truthy subnets then ([], Inl TypeError)
            else ([], Inl (ValueError (NotANetwork (network_text s None)))))"
    by (simp add: main_def v m d)
  have 2: "\<forall>r. snd (main s None subnets) \<noteq> Inr r" unfolding 1 by simp
  from 1 2 v m d show ?thesis by simp
qed

theorem missing_prefix_never_succeeds_witness:
  "ip_network ''192.168.1.0/24'' False = Inr \<lparr>network_address = 3232235776, prefixlen = 24\<rparr> \<and>
   main ''192.168.1.0/24'' None (Some 4) = ([], Inl TypeError) \<and>
   main ''192.168.1.0/24'' None (Some 300) =
     ([SubnetsExceedMaximum 300 256 24], Inl (SystemExit 1)) \<and>
   main ''192.168.1.0/24'' None None =
     ([], Inl (ValueError (NotANetwork ''192.168.1.0/24/None'')))"
proof -
  have h: "ip_network ''192.168.1.0/24'' False = Inr \<lparr>network_address = 3232235776, prefixlen = 24\<rparr>"
    by code_simp
  have t: "network_text ''192.168.1.0/24'' None = ''192.168.1.0/24/None''" by code_simp
  from missing_prefix_never_succeeds[OF h, of "Some 4"]
       missing_prefix_never_succeeds[OF h, of "Some 300"]
       missing_prefix_never_succeeds[OF h, of None] h
  show ?thesis by (simp add: truthy_def t)
qed

section \<open>Scenario B\<close>

text \<open>
  C8. For the address \<open>192.168.1.0\<close>, prefix 24 and four subnets, the search ends with
  prefix 26 and the program returns, in this order, the networks \<open>192.168.1.0/26\<close>,
  \<open>192.168.1.64/26\<close>, \<open>192.168.1.128/26\<close> and \<open>192.168.1.192/26\<close>, each with 62 usable
  addresses.
\<close>

theorem scenario_four_subnets:
  "new_cidr_loop 24 4 24 = 26 \<and>
   main ''192.168.1.0'' (Some 24) (Some 4) =
     ([], Inr (Multiple
        [[(''Subnet'', ''192.168.1.0/26''), (''Subnet Mask'', ''255.255.255.192''),
          (''Network Address'', ''192.168.1.0''), (''Broadcast Address'', ''192.168.1.63''),
          (''Usable IP Range'', ''192.168.1.1 - 192.168.1.62'')],
         [(''Subnet'', ''192.168.1.64/26''), (''Subnet Mask'', ''255.255.255.192''),
          (''Network Address'', ''192.168.1.64''), (''Broadcast Address'', ''192.168.1.127''),
          (''Usable IP Range'', ''192.168.1.65 - 192.168.1.126'')],
         [(''Subnet'', ''192.168.1.128/26''), (''Subnet Mask'', ''255.255.255.192''),
          (''Network Address'', ''192.168.1.128''), (''Broadcast Address'', ''192.168.1.191''),
          (''Usable IP Range'', ''192.168.1.129 - 192.168.1.190'')],
         [(''Subnet'', ''192.168.1.192/26''), (''Subnet Mask'', ''255.255.255.192''),
          (''Network Address'', ''192.168.1.192''), (''Broadcast Address'', ''192.168.1.255''),
          (''Usable IP Range'', ''192.168.1.193 - 192.168.1.254'')]])) \<and>
   ip_network (network_text ''192.168.1.0'' (Some 24)) False =
     Inr \<lparr>network_address = 3232235776, prefixlen = 24\<rparr> \<and>
   net_subnets \<lparr>network_address = 3232235776, prefixlen = 24\<rparr> 26 =
     Inr [\<lparr>network_address = 3232235776, prefixlen = 26\<rparr>,
          \<lparr>network_address = 3232235840, prefixlen = 26\<rparr>,
          \<lparr>network_address = 3232235904, prefixlen = 26\<rparr>,
          \<lparr>network_address = 3232235968, prefixlen = 26\<rparr>] \<and>
   map (\<lambda>c. length (hosts c))
     [\<lparr>network_address = 3232235776, prefixlen = 26\<rparr>,
      \<lparr>network_address = 3232235840, prefixlen = 26\<rparr>,
      \<lparr>network_address = 3232235904, prefixlen = 26\<rparr>,
      \<lparr>network_address = 3232235968, prefixlen = 26\<rparr>] = [62, 62, 62, 62]"
  by code_simp

end
